theory Spec2Isabelle
  imports Main "HOL-Library.Monad_Syntax" "HOL-Library.Sublist"
begin

section \<open>JavaScript values\<close>

text \<open>
  The dashboard receives its events as the result of \<^verbatim>\<open>JSON.parse\<close>. A value is
  what \<^verbatim>\<open>JSON.parse\<close> can return, plus \<^verbatim>\<open>undefined\<close> for a property that is
  not there. Numbers are integers printed in decimal (fractions and magnitudes beyond the
  exact range of a double are not represented); a string is a list of characters, one per
  code unit; an object is the association list of its own properties, looked up by the
  first entry of a key. An operation that raises \<^verbatim>\<open>TypeError\<close> in JavaScript returns
  \<open>None\<close>.
\<close>

datatype jv =
    JUndefined
  | JNull
  | JBool bool
  | JNum int
  | JStr string
  | JArr "jv list"
  | JObj "(string \<times> jv) list"

fun truthy :: "jv \<Rightarrow> bool" where
  "truthy JUndefined = False"
| "truthy JNull = False"
| "truthy (JBool b) = b"
| "truthy (JNum n) = (n \<noteq> 0)"
| "truthy (JStr s) = (s \<noteq> [])"
| "truthy (JArr xs) = True"
| "truthy (JObj fs) = True"

fun nullish :: "jv \<Rightarrow> bool" where
  "nullish JUndefined = True"
| "nullish JNull = True"
| "nullish v = False"

text \<open>
  \<open>prop_of v k\<close> is the property read \<^verbatim>\<open>v.k\<close> on a receiver that is neither
  \<^verbatim>\<open>null\<close> nor \<^verbatim>\<open>undefined\<close>. Of the property names the program reads, only
  \<^verbatim>\<open>length\<close> is defined on the prototypes of strings and arrays; every other name
  is an own property of an object or absent.
\<close>

fun prop_of :: "jv \<Rightarrow> string \<Rightarrow> jv" where
  "prop_of (JObj fs) k = (case map_of fs k of Some v \<Rightarrow> v | None \<Rightarrow> JUndefined)"
| "prop_of (JStr s) k = (if k = ''length'' then JNum (int (length s)) else JUndefined)"
| "prop_of (JArr xs) k = (if k = ''length'' then JNum (int (length xs)) else JUndefined)"
| "prop_of v k = JUndefined"

text \<open>\<^verbatim>\<open>v.k\<close>: a \<^verbatim>\<open>TypeError\<close> on \<^verbatim>\<open>null\<close> and \<^verbatim>\<open>undefined\<close>.\<close>

definition get :: "jv \<Rightarrow> string \<Rightarrow> jv option" where
  "get v k = (if nullish v then None else Some (prop_of v k))"

text \<open>\<^verbatim>\<open>v?.k\<close>\<close>

definition opt_get :: "jv \<Rightarrow> string \<Rightarrow> jv" where
  "opt_get v k = (if nullish v then JUndefined else prop_of v k)"

text \<open>\<^verbatim>\<open>a || b\<close> for an operand \<open>b\<close> whose evaluation cannot raise.\<close>

definition js_or :: "jv \<Rightarrow> jv \<Rightarrow> jv" where
  "js_or a b = (if truthy a then a else b)"

text \<open>
  \<^verbatim>\<open>a === b\<close>. Two arrays or objects are equal only when they are the same reference;
  the program compares values read from different places of a parsed message, which are
  never the same reference.
\<close>

fun strict_eq :: "jv \<Rightarrow> jv \<Rightarrow> bool" where
  "strict_eq JUndefined JUndefined = True"
| "strict_eq JNull JNull = True"
| "strict_eq (JBool a) (JBool b) = (a = b)"
| "strict_eq (JNum a) (JNum b) = (a = b)"
| "strict_eq (JStr a) (JStr b) = (a = b)"
| "strict_eq a b = False"

text \<open>
  The decimal form of an integer. It is what JavaScript prints for an integer of magnitude
  below \<^verbatim>\<open>1e21\<close>; JavaScript prints a number of larger magnitude in exponent form, so
  for such a number the texts built below differ from the program's. Numbers with a
  fraction are not values of this model.
\<close>

definition digit_char :: "nat \<Rightarrow> char" where
  "digit_char d = ''0123456789'' ! (d mod 10)"

fun show_nat :: "nat \<Rightarrow> string" where
  "show_nat n = (if n < 10 then [digit_char n] else show_nat (n div 10) @ [digit_char (n mod 10)])"

declare show_nat.simps [simp del]

definition show_int :: "int \<Rightarrow> string" where
  "show_int i = (if i < 0 then CHR ''-'' # show_nat (nat (- i)) else show_nat (nat i))"

fun join_comma :: "string list \<Rightarrow> string" where
  "join_comma [] = []"
| "join_comma [s] = s"
| "join_comma (s # t # ss) = s @ '','' @ join_comma (t # ss)"

text \<open>
  \<^verbatim>\<open>String(v)\<close>, the conversion of a template literal \<^verbatim>\<open>`${v}`\<close> and of a
  property key. An array is joined with commas, \<^verbatim>\<open>null\<close> and \<^verbatim>\<open>undefined\<close>
  elements giving the empty string. A parsed object prints as \<^verbatim>\<open>[object Object]\<close>
  unless it has an own property \<^verbatim>\<open>toString\<close>: that property is not callable, the
  inherited \<^verbatim>\<open>valueOf\<close> returns the object itself, and the conversion raises
  \<^verbatim>\<open>TypeError\<close>.
\<close>

fun to_str :: "jv \<Rightarrow> string option"
  and to_str_elems :: "jv list \<Rightarrow> string list option" where
  "to_str JUndefined = Some ''undefined''"
| "to_str JNull = Some ''null''"
| "to_str (JBool b) = Some (if b then ''true'' else ''false'')"
| "to_str (JNum n) = Some (show_int n)"
| "to_str (JStr s) = Some s"
| "to_str (JArr xs) = map_option join_comma (to_str_elems xs)"
| "to_str (JObj fs) = (if map_of fs ''toString'' \<noteq> None then None else Some ''[object Object]'')"
| "to_str_elems [] = Some []"
| "to_str_elems (x # xs) =
     (case (if nullish x then Some [] else to_str x) of
        None \<Rightarrow> None
      | Some s \<Rightarrow> map_option ((#) s) (to_str_elems xs))"

text \<open>
  \<^verbatim>\<open>v > 0\<close>. A string operand is converted to a number by the engine; whether that
  number is positive is the parameter \<open>str_gt0\<close>. An object that prints as
  \<^verbatim>\<open>[object Object]\<close> converts to \<^verbatim>\<open>NaN\<close>.
\<close>

fun js_gt0 :: "(string \<Rightarrow> bool) \<Rightarrow> jv \<Rightarrow> bool option" where
  "js_gt0 str_gt0 JUndefined = Some False"
| "js_gt0 str_gt0 JNull = Some False"
| "js_gt0 str_gt0 (JBool b) = Some b"
| "js_gt0 str_gt0 (JNum n) = Some (0 < n)"
| "js_gt0 str_gt0 (JStr s) = Some (str_gt0 s)"
| "js_gt0 str_gt0 (JArr xs) = map_option str_gt0 (to_str (JArr xs))"
| "js_gt0 str_gt0 (JObj fs) = map_option (\<lambda>_. False) (to_str (JObj fs))"

text \<open>\<^verbatim>\<open>v[0]\<close> on a receiver that is neither \<^verbatim>\<open>null\<close> nor \<^verbatim>\<open>undefined\<close>.\<close>

fun index0 :: "jv \<Rightarrow> jv" where
  "index0 (JArr xs) = (case xs of [] \<Rightarrow> JUndefined | x # _ \<Rightarrow> x)"
| "index0 (JStr s) = (case s of [] \<Rightarrow> JUndefined | c # _ \<Rightarrow> JStr [c])"
| "index0 (JObj fs) = prop_of (JObj fs) ''0''"
| "index0 v = JUndefined"

text \<open>
  \<^verbatim>\<open>v.slice(1, 3)\<close>: defined on arrays and strings; on any other receiver
  \<^verbatim>\<open>v.slice\<close> is not a function.
\<close>

fun slice_1_3 :: "jv \<Rightarrow> jv option" where
  "slice_1_3 (JArr xs) = Some (JArr (take 2 (drop 1 xs)))"
| "slice_1_3 (JStr s) = Some (JStr (take 2 (drop 1 s)))"
| "slice_1_3 v = None"

text \<open>\<^verbatim>\<open>s.replace(/_/g, " ")\<close> on a string.\<close>

definition replace_underscores :: "string \<Rightarrow> string" where
  "replace_underscores s = map (\<lambda>c. if c = CHR ''_'' then CHR '' '' else c) s"

text \<open>\<^verbatim>\<open>v.replace(/_/g, " ")\<close>: \<^verbatim>\<open>v.replace\<close> is a function on strings only.\<close>

fun js_replace_underscores :: "jv \<Rightarrow> jv option" where
  "js_replace_underscores (JStr s) = Some (JStr (replace_underscores s))"
| "js_replace_underscores v = None"

text \<open>\<^verbatim>\<open>xs.slice(-n)\<close> on an array: its last \<open>n\<close> elements.\<close>

definition slice_last :: "nat \<Rightarrow> 'a list \<Rightarrow> 'a list" where
  "slice_last n xs = drop (length xs - n) xs"

text \<open>
  The names of the properties that an object literal inherits from
  \<^verbatim>\<open>Object.prototype\<close>. A lookup \<^verbatim>\<open>table[k]\<close> in an object literal that has no own
  property \<open>k\<close> finds the inherited value for these names: a function, or, for
  \<^verbatim>\<open>__proto__\<close>, the prototype object. Each of these values is truthy and has no own
  enumerable property.
\<close>

definition object_prototype_names :: "string list" where
  "object_prototype_names =
     [''constructor'', ''__defineGetter__'', ''__defineSetter__'', ''hasOwnProperty'',
      ''__lookupGetter__'', ''__lookupSetter__'', ''isPrototypeOf'', ''propertyIsEnumerable'',
      ''toString'', ''valueOf'', ''__proto__'', ''toLocaleString'']"


section \<open>Stream buffer: the handler of \<^verbatim>\<open>useSSE\<close>\<close>

text \<open>
  The state of the hook. \<open>callStatus\<close> starts as \<^verbatim>\<open>null\<close>. The handler receives
  the outcome of \<^verbatim>\<open>JSON.parse(e.data)\<close>: \<open>None\<close> when the text does not parse.
  Everything the handler does is inside \<^verbatim>\<open>try { ... } catch {}\<close>, so an exception
  leaves the state as it is at that point.
\<close>

record sse_state =
  events :: "jv list"
  connected :: bool
  callStatus :: jv

definition initial_state :: sse_state where
  "initial_state = \<lparr>events = [], connected = False, callStatus = JNull\<rparr>"

definition onopen :: "sse_state \<Rightarrow> sse_state" where
  "onopen st = st\<lparr>connected := True\<rparr>"

definition onerror :: "sse_state \<Rightarrow> sse_state" where
  "onerror st = st\<lparr>connected := False\<rparr>"

definition handler :: "sse_state \<Rightarrow> jv option \<Rightarrow> sse_state" where
  "handler st parsed =
     (case parsed of
        None \<Rightarrow> st
      | Some data \<Rightarrow>
          (case get data ''type'' of
             None \<Rightarrow> st
           | Some ty \<Rightarrow>
               if strict_eq ty (JStr ''task_updated'')
                  \<and> strict_eq (opt_get (prop_of data ''data'') ''reset'') (JBool True)
               then st\<lparr>events := []\<rparr>
               else
                 let st1 = st\<lparr>events := slice_last 150 (events st @ [data])\<rparr>
                 in (case get data ''type'' of
                       None \<Rightarrow> st1
                     | Some ty2 \<Rightarrow>
                         if strict_eq ty2 (JStr ''call_status'') \<or> strict_eq ty2 (JStr ''transcript'')
                         then st1\<lparr>callStatus := data\<rparr>
                         else st1)))"

text \<open>The state after a sequence of messages, starting from \<open>st\<close>.\<close>

definition ingest :: "sse_state \<Rightarrow> jv option list \<Rightarrow> sse_state" where
  "ingest st msgs = foldl handler st msgs"


section \<open>Reasoning chain deriver: \<^verbatim>\<open>buildReasoningChain\<close>\<close>

text \<open>
  A step is the object pushed to \<^verbatim>\<open>steps\<close>. A key that an object literal leaves
  out reads as \<^verbatim>\<open>undefined\<close>. A property read has no effect, so several reads of
  one property of one object within a statement are written once.
\<close>

record step =
  category :: string
  label :: jv
  detail :: jv
  source :: jv
  extras :: jv
  highlight :: jv

text \<open>The character U+2014 of the source's literals, in UTF-8.\<close>

definition em_dash :: string where
  "em_dash = [CHR 0xE2, CHR 0x80, CHR 0x94]"

text \<open>
  The four statements of the block for \<^verbatim>\<open>task_updated\<close>, in the order of the
  source: \<^verbatim>\<open>if (d.phase === "research")\<close>,
  \<^verbatim>\<open>if (d.phase === "research_complete")\<close>, \<^verbatim>\<open>if (d.confirmed_action)\<close> and
  \<^verbatim>\<open>if (d.phase === "dispatch")\<close>.
\<close>

definition rule_research :: "jv \<Rightarrow> step list \<Rightarrow> step list option" where
  "rule_research d steps0 = do {
     phase \<leftarrow> get d ''phase'';
     (if strict_eq phase (JStr ''research'') then do {
        message \<leftarrow> get d ''message'';
        Some (steps0 @ [\<lparr>category = ''research'',
                        label = JStr ''Research Phase'',
                        detail = js_or message (JStr ''Gathering competitive intelligence and context...''),
                        source = JStr ''Tavily + Senso'',
                        extras = JUndefined, highlight = JUndefined\<rparr>])
      } else Some steps0)
   }"

definition rule_research_complete :: "jv \<Rightarrow> step list \<Rightarrow> step list option" where
  "rule_research_complete d steps0 = do {
     phase \<leftarrow> get d ''phase'';
     (if strict_eq phase (JStr ''research_complete'') then
        Some (steps0 @ [\<lparr>category = ''strategy'',
                        label = JStr ''Strategy Formed'',
                        detail = JStr (''Analysis complete '' @ em_dash @ '' negotiation approach determined''),
                        source = JStr ''Haggle Engine'',
                        extras = JUndefined, highlight = JUndefined\<rparr>])
      else Some steps0)
   }"

definition rule_confirmed_action :: "jv \<Rightarrow> step list \<Rightarrow> step list option" where
  "rule_confirmed_action d steps0 = do {
     confirmed_action \<leftarrow> get d ''confirmed_action'';
     (if truthy confirmed_action then do {
        action \<leftarrow> get confirmed_action ''action'';
        service \<leftarrow> get confirmed_action ''service'';
        service_text \<leftarrow> to_str service;
        reason \<leftarrow> get confirmed_action ''reason'';
        detail_value \<leftarrow>
          (if truthy reason then Some reason
           else do {
             monthly_savings \<leftarrow> get confirmed_action ''monthly_savings'';
             savings_text \<leftarrow> to_str monthly_savings;
             Some (JStr (''Target savings: $'' @ savings_text @ ''/mo''))
           });
        Some (steps0 @ [\<lparr>category = ''summary'',
                        label = JStr (''User Confirmed: ''
                                  @ (if strict_eq action (JStr ''cancel_service'') then ''Cancel'' else ''Negotiate'')
                                  @ '' '' @ service_text),
                        detail = detail_value,
                        source = JStr ''User Decision'',
                        extras = JUndefined, highlight = JBool True\<rparr>])
      } else Some steps0)
   }"

definition rule_dispatch :: "jv \<Rightarrow> step list \<Rightarrow> step list option" where
  "rule_dispatch d steps0 = do {
     phase \<leftarrow> get d ''phase'';
     (if strict_eq phase (JStr ''dispatch'') then do {
        message \<leftarrow> get d ''message'';
        Some (steps0 @ [\<lparr>category = ''call'',
                        label = JStr ''Dispatching Service Calls'',
                        detail = js_or message (JStr ''Initiating autonomous negotiation...''),
                        source = JStr ''Vapi'',
                        extras = JUndefined, highlight = JUndefined\<rparr>])
      } else Some steps0)
   }"

definition on_task_updated :: "jv \<Rightarrow> step list \<Rightarrow> step list option" where
  "on_task_updated d steps0 = do {
     steps1 \<leftarrow> rule_research d steps0;
     steps2 \<leftarrow> rule_research_complete d steps1;
     steps3 \<leftarrow> rule_confirmed_action d steps2;
     rule_dispatch d steps3
   }"

text \<open>The table \<^verbatim>\<open>toolLabels\<close>: tool name, then label, detail and source.\<close>

definition toolLabels :: "(string \<times> string \<times> string \<times> string) list" where
  "toolLabels =
    [(''tavily_search'', ''Web Intelligence Search'',
        ''Searching competitor rates, retention offers, and market data'', ''Tavily''),
     (''search_task_context'', ''Loading Task Context'',
        ''Retrieving subscription details and negotiation parameters'', ''Context Store''),
     (''extract_entities'', ''Entity Extraction'',
        ''Parsing call for confirmation numbers, prices, account details'', ''GLiNER2''),
     (''update_neo4j'', ''Knowledge Graph Update'',
        ''Persisting negotiation results and subscription changes'', ''Neo4j''),
     (''end_task'', ''Task Completed'',
        ''Marking task as resolved with final outcome'', ''Haggle Engine''),
     (''get_subscription_analysis'', ''Subscription Analysis'',
        ''Analyzing user's subscription portfolio for optimization'', ''Analytics''),
     (''confirm_action'', ''Action Confirmed'',
        ''Recording user's confirmed decision'', ''User Input''),
     (''calculate_cost_per_use'', ''Cost-Per-Use Analysis'',
        ''Calculating actual value vs. cost of subscription'', ''Analytics'')]"

text \<open>
  \<^verbatim>\<open>const info = toolLabels[d.tool] || {...}; steps.push({ category: "tool", ...info })\<close>.
  For a tool named like a property inherited from \<^verbatim>\<open>Object.prototype\<close> the lookup
  finds the inherited value, which is truthy and spreads to nothing: the step has a
  category only.
\<close>

definition on_tool_call :: "jv \<Rightarrow> step list \<Rightarrow> step list option" where
  "on_tool_call d steps0 = do {
     tool \<leftarrow> get d ''tool'';
     key \<leftarrow> to_str tool;
     Some (steps0 @ [case map_of toolLabels key of
                       Some (l, dt, s) \<Rightarrow>
                         \<lparr>category = ''tool'', label = JStr l, detail = JStr dt, source = JStr s,
                          extras = JUndefined, highlight = JUndefined\<rparr>
                     | None \<Rightarrow>
                         if key \<in> set object_prototype_names
                         then \<lparr>category = ''tool'', label = JUndefined, detail = JUndefined,
                               source = JUndefined, extras = JUndefined, highlight = JUndefined\<rparr>
                         else \<lparr>category = ''tool'', label = tool, detail = JStr ''Processing...'',
                               source = JStr ''Agent'', extras = JUndefined, highlight = JUndefined\<rparr>])
   }"

text \<open>
  The three statements of the block for \<^verbatim>\<open>call_status\<close>:
  \<^verbatim>\<open>if (d.status === "ringing")\<close>, \<^verbatim>\<open>if (d.status === "in_progress")\<close> and
  \<^verbatim>\<open>if (d.status === "ended")\<close>.
\<close>

definition rule_ringing :: "jv \<Rightarrow> step list \<Rightarrow> step list option" where
  "rule_ringing d steps0 = do {
     status \<leftarrow> get d ''status'';
     (if strict_eq status (JStr ''ringing'') then do {
        company \<leftarrow> get d ''company'';
        company_text \<leftarrow> to_str (js_or company (JStr ''Provider''));
        Some (steps0 @ [\<lparr>category = ''call'',
                        label = JStr (''Calling '' @ company_text),
                        detail = JStr ''Connecting to service provider...'',
                        source = JStr ''Vapi'',
                        extras = JUndefined, highlight = JUndefined\<rparr>])
      } else Some steps0)
   }"

definition rule_in_progress :: "jv \<Rightarrow> step list \<Rightarrow> step list option" where
  "rule_in_progress d steps0 = do {
     status \<leftarrow> get d ''status'';
     (if strict_eq status (JStr ''in_progress'') then do {
        company \<leftarrow> get d ''company'';
        with_company \<leftarrow>
          (if truthy company then do {
             company_text \<leftarrow> to_str company;
             Some ('' with '' @ company_text)
           } else Some []);
        Some (steps0 @ [\<lparr>category = ''call'',
                        label = JStr ''Call Connected'',
                        detail = JStr (''Live negotiation in progress'' @ with_company),
                        source = JStr ''Vapi'',
                        extras = JUndefined, highlight = JUndefined\<rparr>])
      } else Some steps0)
   }"

definition rule_ended :: "jv \<Rightarrow> step list \<Rightarrow> step list option" where
  "rule_ended d steps0 = do {
     status \<leftarrow> get d ''status'';
     (if strict_eq status (JStr ''ended'') then do {
        duration_seconds \<leftarrow> get d ''duration_seconds'';
        duration_text \<leftarrow> to_str (js_or duration_seconds (JStr ''?''));
        outcome \<leftarrow> get d ''outcome'';
        outcome_part \<leftarrow>
          (if truthy outcome then do {
             outcome_text \<leftarrow> to_str outcome;
             Some ('' '' @ em_dash @ '' '' @ outcome_text)
           } else Some []);
        Some (steps0 @ [\<lparr>category = ''summary'',
                        label = JStr ''Call Completed'',
                        detail = JStr (''Duration: '' @ duration_text @ ''s'' @ outcome_part),
                        source = JStr ''Vapi'',
                        extras = JUndefined,
                        highlight = JBool (strict_eq outcome (JStr ''success''))\<rparr>])
      } else Some steps0)
   }"

definition on_call_status :: "jv \<Rightarrow> step list \<Rightarrow> step list option" where
  "on_call_status d steps0 = do {
     steps1 \<leftarrow> rule_ringing d steps0;
     steps2 \<leftarrow> rule_in_progress d steps1;
     rule_ended d steps2
   }"

definition on_voice_analysis :: "(string \<Rightarrow> bool) \<Rightarrow> jv \<Rightarrow> step list \<Rightarrow> step list option" where
  "on_voice_analysis str_gt0 d steps0 = do {
     key_insights \<leftarrow> get d ''key_insights'';
     let insights = js_or key_insights (JArr []);
     len \<leftarrow> get insights ''length'';
     positive \<leftarrow> js_gt0 str_gt0 len;
     (if positive then do {
        emotion \<leftarrow> get d ''emotion'';
        emotion_text \<leftarrow> to_str (js_or emotion (JStr ''Analysis''));
        rest \<leftarrow> slice_1_3 insights;
        Some (steps0 @ [\<lparr>category = ''voice'',
                        label = JStr (''Voice Intelligence: '' @ emotion_text),
                        detail = index0 insights,
                        source = JStr ''Modulate Velma 2'',
                        extras = rest, highlight = JUndefined\<rparr>])
      } else Some steps0)
   }"

definition on_entity_extracted :: "jv \<Rightarrow> step list \<Rightarrow> step list option" where
  "on_entity_extracted d steps0 = do {
     entity_type \<leftarrow> get d ''entity_type'';
     label_value \<leftarrow> js_replace_underscores (js_or entity_type (JStr ''entity''));
     v \<leftarrow> get d ''value'';
     extraction_source \<leftarrow> get d ''extraction_source'';
     gliner2_extras \<leftarrow> get d ''gliner2_extras'';
     Some (steps0 @ [\<lparr>category = ''entity'',
                     label = label_value,
                     detail = v,
                     source = js_or extraction_source (JStr ''GLiNER2''),
                     extras = gliner2_extras, highlight = JUndefined\<rparr>])
   }"

definition on_graph_updated :: "jv \<Rightarrow> step list \<Rightarrow> step list option" where
  "on_graph_updated d steps0 = do {
     details \<leftarrow> get d ''details'';
     let savings = opt_get details ''monthly_savings'';
     service \<leftarrow> get d ''service'';
     service_text \<leftarrow> to_str (js_or service (JStr ''Updated''));
     detail_text \<leftarrow>
       (if truthy savings then do {
          savings_text \<leftarrow> to_str savings;
          annual_savings \<leftarrow> get details ''annual_savings'';
          annual_text \<leftarrow> to_str annual_savings;
          Some (''Saved $'' @ savings_text @ ''/mo ($'' @ annual_text @ ''/yr)'')
        } else Some ''Graph nodes updated'');
     Some (steps0 @ [\<lparr>category = ''graph'',
                     label = JStr (''Knowledge Graph: '' @ service_text),
                     detail = JStr detail_text,
                     source = JStr ''Neo4j'',
                     extras = JUndefined,
                     highlight = JBool (truthy savings)\<rparr>])
   }"

definition on_bill_analyzed :: "jv \<Rightarrow> step list \<Rightarrow> step list option" where
  "on_bill_analyzed d steps0 = do {
     provider_name \<leftarrow> get d ''provider_name'';
     provider_text \<leftarrow> to_str (js_or provider_name (JStr ''Provider''));
     total_amount \<leftarrow> get d ''total_amount'';
     total_text \<leftarrow> to_str (js_or total_amount (JStr ''?''));
     price_change \<leftarrow> get d ''price_change'';
     change_part \<leftarrow>
       (if truthy price_change then do {
          change_text \<leftarrow> to_str price_change;
          Some ('' '' @ em_dash @ '' '' @ change_text)
        } else Some []);
     Some (steps0 @ [\<lparr>category = ''detection'',
                     label = JStr (''Bill Scanned: '' @ provider_text),
                     detail = JStr (''Total: $'' @ total_text @ change_part),
                     source = JStr ''Reka Vision'',
                     extras = JUndefined, highlight = JUndefined\<rparr>])
   }"

definition on_call_summary :: "jv \<Rightarrow> step list \<Rightarrow> step list option" where
  "on_call_summary d steps0 = do {
     narrative \<leftarrow> get d ''narrative'';
     key_points \<leftarrow> get d ''key_points'';
     Some (steps0 @ [\<lparr>category = ''summary'',
                     label = JStr ''Agent Summary'',
                     detail = narrative,
                     source = JStr ''Haggle Agent'',
                     extras = key_points, highlight = JBool True\<rparr>])
   }"

definition on_modulate_analysis :: "jv \<Rightarrow> step list \<Rightarrow> step list option" where
  "on_modulate_analysis d steps0 = do {
     agent_performance \<leftarrow> get d ''agent_performance'';
     let perf = js_or agent_performance (JObj []);
     professionalism \<leftarrow> get perf ''professionalism'';
     (if truthy professionalism then do {
        grade \<leftarrow> get professionalism ''grade'';
        grade_text \<leftarrow> to_str grade;
        privacy \<leftarrow> get perf ''privacy'';
        privacy_text \<leftarrow> to_str (js_or (opt_get privacy ''grade'') (JStr ''?''));
        summary_note \<leftarrow> get perf ''summary_note'';
        Some (steps0 @ [\<lparr>category = ''voice'',
                        label = JStr (''Performance: '' @ grade_text @ '' Professionalism, ''
                                      @ privacy_text @ '' Privacy''),
                        detail = js_or summary_note (JStr ''Agent performance evaluated''),
                        source = JStr ''Modulate'',
                        extras = JUndefined, highlight = JUndefined\<rparr>])
      } else Some steps0)
   }"

definition on_pii_detected :: "jv \<Rightarrow> step list \<Rightarrow> step list option" where
  "on_pii_detected d steps0 = do {
     count \<leftarrow> get d ''count'';
     count_text \<leftarrow> to_str count;
     Some (steps0 @ [\<lparr>category = ''detection'',
                     label = JStr (''PII Protected: '' @ count_text @ '' item''
                                   @ (if \<not> strict_eq count (JNum 1) then ''s'' else [])
                                   @ '' auto-redacted''),
                     detail = JStr ''Sensitive data detected and removed from transcript'',
                     source = JStr ''Modulate Safety'',
                     extras = JUndefined, highlight = JUndefined\<rparr>])
   }"

text \<open>
  \<open>when_type ty name block steps\<close> is one statement
  \<^verbatim>\<open>if (ev.type === name) { ... }\<close> of the loop body.
\<close>

definition when_type ::
  "jv \<Rightarrow> string \<Rightarrow> (step list \<Rightarrow> step list option) \<Rightarrow> step list \<Rightarrow> step list option" where
  "when_type ty name block steps0 = (if strict_eq ty (JStr name) then block steps0 else Some steps0)"

text \<open>The body of \<^verbatim>\<open>for (const ev of events)\<close>: the steps after the event \<open>ev\<close>.\<close>

definition event_body :: "(string \<Rightarrow> bool) \<Rightarrow> step list \<Rightarrow> jv \<Rightarrow> step list option" where
  "event_body str_gt0 steps0 ev = do {
     data \<leftarrow> get ev ''data'';
     let d = js_or data (JObj []);
     ty \<leftarrow> get ev ''type'';
     steps1 \<leftarrow> when_type ty ''task_updated'' (on_task_updated d) steps0;
     steps2 \<leftarrow> when_type ty ''tool_call'' (on_tool_call d) steps1;
     steps3 \<leftarrow> when_type ty ''call_status'' (on_call_status d) steps2;
     steps4 \<leftarrow> when_type ty ''voice_analysis'' (on_voice_analysis str_gt0 d) steps3;
     steps5 \<leftarrow> when_type ty ''entity_extracted'' (on_entity_extracted d) steps4;
     steps6 \<leftarrow> when_type ty ''graph_updated'' (on_graph_updated d) steps5;
     steps7 \<leftarrow> when_type ty ''bill_analyzed'' (on_bill_analyzed d) steps6;
     steps8 \<leftarrow> when_type ty ''call_summary'' (on_call_summary d) steps7;
     steps9 \<leftarrow> when_type ty ''modulate_analysis'' (on_modulate_analysis d) steps8;
     when_type ty ''pii_detected'' (on_pii_detected d) steps9
   }"

fun for_events :: "(string \<Rightarrow> bool) \<Rightarrow> step list \<Rightarrow> jv list \<Rightarrow> step list option" where
  "for_events str_gt0 steps0 [] = Some steps0"
| "for_events str_gt0 steps0 (ev # evs) =
     (case event_body str_gt0 steps0 ev of
        None \<Rightarrow> None
      | Some steps1 \<Rightarrow> for_events str_gt0 steps1 evs)"

definition buildReasoningChain :: "(string \<Rightarrow> bool) \<Rightarrow> jv list \<Rightarrow> step list option" where
  "buildReasoningChain str_gt0 evs = for_events str_gt0 [] evs"


section \<open>Graph layout: \<^verbatim>\<open>computeLayout\<close>\<close>

text \<open>
  A snapshot as \<^verbatim>\<open>/api/graph\<close> returns it. A node has an id, a label, a name and
  its properties; a link names its source and its target either by a bare id or by an
  embedded node object, and has an optional type and properties. Ids are strings, compared
  with \<^verbatim>\<open>===\<close>.
\<close>

record node =
  node_id :: string
  node_label :: string
  node_name :: string
  node_properties :: jv

datatype ref = BareId string | NodeObj node

record link =
  link_source :: ref
  link_target :: ref
  link_type :: "string option"
  link_properties :: jv

record graph_data =
  nodes :: "node list"
  links :: "link list"

text \<open>
  The numbers of the layout are integers, and \<^verbatim>\<open>NaN\<close> where the code adds a number
  to \<^verbatim>\<open>undefined\<close>. A coordinate of the output is such a number or
  \<^verbatim>\<open>undefined\<close>.
\<close>

datatype js_number = Finite int | NaN

datatype coordinate = Coordinate js_number | NoCoordinate

record position =
  pos_x :: js_number
  pos_y :: js_number

record positioned_node =
  item_node :: node
  item_x :: coordinate
  item_y :: coordinate
  item_active :: jv

text \<open>
  The label of an edge: \<^verbatim>\<open>undefined\<close>, a text, or the value that the table
  \<^verbatim>\<open>EDGE_LABELS\<close> inherits from \<^verbatim>\<open>Object.prototype\<close>.
\<close>

datatype label_value = LabelUndefined | LabelText string | LabelInherited

record edge =
  edge_x1 :: coordinate
  edge_y1 :: coordinate
  edge_x2 :: coordinate
  edge_y2 :: coordinate
  edge_label :: label_value
  edge_status :: jv

record layout =
  positioned :: "positioned_node list"
  edges :: "edge list"

text \<open>
  The object \<^verbatim>\<open>const positions = {}\<close>. It has its own properties, set by
  \<^verbatim>\<open>positions[id] = {x, y}\<close>, and a prototype. The prototype is
  \<^verbatim>\<open>Object.prototype\<close> (\<open>None\<close>) until an assignment to the key \<^verbatim>\<open>__proto__\<close>,
  which runs the inherited setter and makes the assigned object the prototype instead of
  creating an own property; the assigned object in turn inherits from
  \<^verbatim>\<open>Object.prototype\<close>. The assigned objects are never changed afterwards.
\<close>

record positions =
  own :: "string \<Rightarrow> position option"
  proto :: "position option"

definition empty_positions :: positions where
  "empty_positions = \<lparr>own = Map.empty, proto = None\<rparr>"

text \<open>\<^verbatim>\<open>positions[k] = v\<close>\<close>

definition positions_set :: "positions \<Rightarrow> string \<Rightarrow> position \<Rightarrow> positions" where
  "positions_set ps k v =
     (if k = ''__proto__'' then ps\<lparr>proto := Some v\<rparr> else ps\<lparr>own := (own ps)(k \<mapsto> v)\<rparr>)"

text \<open>
  What \<^verbatim>\<open>positions[k]\<close> reads: \<^verbatim>\<open>undefined\<close>, a position object, a number
  (the \<^verbatim>\<open>x\<close> or \<^verbatim>\<open>y\<close> of a position object that has become the prototype), or a
  value inherited from \<^verbatim>\<open>Object.prototype\<close>.
\<close>

datatype positions_value = PUndefined | PObject position | PNumber js_number | PInherited

definition positions_get :: "positions \<Rightarrow> string \<Rightarrow> positions_value" where
  "positions_get ps k =
     (case own ps k of
        Some v \<Rightarrow> PObject v
      | None \<Rightarrow>
          (case proto ps of
             Some p \<Rightarrow>
               if k = ''__proto__'' then PObject p
               else if k = ''x'' then PNumber (pos_x p)
               else if k = ''y'' then PNumber (pos_y p)
               else if k \<in> set object_prototype_names then PInherited
               else PUndefined
           | None \<Rightarrow> if k \<in> set object_prototype_names then PInherited else PUndefined))"

fun truthy_value :: "positions_value \<Rightarrow> bool" where
  "truthy_value PUndefined = False"
| "truthy_value (PObject p) = True"
| "truthy_value (PNumber (Finite n)) = (n \<noteq> 0)"
| "truthy_value (PNumber NaN) = False"
| "truthy_value PInherited = True"

text \<open>
  \<^verbatim>\<open>v.x\<close> and \<^verbatim>\<open>v.y\<close> for a value \<open>v\<close> other than \<^verbatim>\<open>undefined\<close>: a number
  and an inherited function have no such property.
\<close>

fun x_of :: "positions_value \<Rightarrow> coordinate" where
  "x_of (PObject p) = Coordinate (pos_x p)"
| "x_of v = NoCoordinate"

fun y_of :: "positions_value \<Rightarrow> coordinate" where
  "y_of (PObject p) = Coordinate (pos_y p)"
| "y_of v = NoCoordinate"

text \<open>\<^verbatim>\<open>v.x\<close> and \<^verbatim>\<open>v.y\<close>: a \<^verbatim>\<open>TypeError\<close> on \<^verbatim>\<open>undefined\<close>.\<close>

definition get_x :: "positions_value \<Rightarrow> coordinate option" where
  "get_x v = (if v = PUndefined then None else Some (x_of v))"

definition get_y :: "positions_value \<Rightarrow> coordinate option" where
  "get_y v = (if v = PUndefined then None else Some (y_of v))"

text \<open>\<^verbatim>\<open>c + n\<close> for a number \<open>n\<close>: \<^verbatim>\<open>NaN\<close> unless \<open>c\<close> is a number.\<close>

fun plus_number :: "coordinate \<Rightarrow> int \<Rightarrow> js_number" where
  "plus_number (Coordinate (Finite a)) n = Finite (a + n)"
| "plus_number c n = NaN"

definition sourceId :: "link \<Rightarrow> string" where
  "sourceId l = (case link_source l of NodeObj n \<Rightarrow> node_id n | BareId i \<Rightarrow> i)"

definition targetId :: "link \<Rightarrow> string" where
  "targetId l = (case link_target l of NodeObj n \<Rightarrow> node_id n | BareId i \<Rightarrow> i)"

definition EDGE_LABELS :: "(string \<times> string) list" where
  "EDGE_LABELS = [(''SUBSCRIBES_TO'', ''subscribes to''), (''NEGOTIATED'', ''negotiated'')]"

definition CX :: int where "CX = 250"
definition CY :: int where "CY = 80"
definition serviceY :: int where "serviceY = 180"
definition serviceSpacing :: int where "serviceSpacing = 180"

text \<open>
  \<^verbatim>\<open>CX - ((services.length - 1) * serviceSpacing) / 2\<close>: the product is even, so the
  division is exact.
\<close>

definition serviceStartX :: "node list \<Rightarrow> int" where
  "serviceStartX services = CX - ((int (length services) - 1) * serviceSpacing) div 2"

text \<open>The body of \<^verbatim>\<open>services.forEach((s, i) => ...)\<close>.\<close>

definition place_service :: "int \<Rightarrow> nat \<times> node \<Rightarrow> positions \<Rightarrow> positions" where
  "place_service startX = (\<lambda>(i, s) ps.
     positions_set ps (node_id s)
       \<lparr>pos_x = Finite (startX + int i * serviceSpacing), pos_y = Finite serviceY\<rparr>)"

text \<open>The body of \<^verbatim>\<open>negotiations.forEach((neg, i) => ...)\<close>.\<close>

definition place_negotiation :: "link list \<Rightarrow> node list \<Rightarrow> nat \<times> node \<Rightarrow> positions \<Rightarrow> positions" where
  "place_negotiation ls services = (\<lambda>(i, neg) ps.
     let found = find (\<lambda>l. (sourceId l = node_id neg \<or> targetId l = node_id neg)
                           \<and> list_ex (\<lambda>s. node_id s = sourceId l \<or> node_id s = targetId l) services) ls;
         ps1 = (case found of
                  None \<Rightarrow> ps
                | Some l \<Rightarrow>
                    let serviceId = (if sourceId l = node_id neg then targetId l else sourceId l);
                        sp = positions_get ps serviceId
                    in if truthy_value sp
                       then positions_set ps (node_id neg)
                              \<lparr>pos_x = plus_number (x_of sp) (20 * (int i + 1)),
                               pos_y = plus_number (y_of sp) 60\<rparr>
                       else ps)
     in if \<not> truthy_value (positions_get ps1 (node_id neg))
        then positions_set ps1 (node_id neg) \<lparr>pos_x = Finite (CX + 60 * int i), pos_y = Finite 240\<rparr>
        else ps1)"

text \<open>The object \<^verbatim>\<open>positions\<close> once the three groups of nodes are placed.\<close>

definition layout_positions :: "graph_data \<Rightarrow> positions" where
  "layout_positions g =
     (let person = find (\<lambda>n. node_label n = ''Person'') (nodes g);
          services = filter (\<lambda>n. node_label n = ''Service'') (nodes g);
          negotiations = filter (\<lambda>n. node_label n = ''Negotiation'') (nodes g);
          ps0 = (case person of
                   None \<Rightarrow> empty_positions
                 | Some p \<Rightarrow>
                     positions_set empty_positions (node_id p) \<lparr>pos_x = Finite CX, pos_y = Finite CY\<rparr>);
          ps1 = fold (place_service (serviceStartX services)) (enumerate 0 services) ps0
      in fold (place_negotiation (links g) services) (enumerate 0 negotiations) ps1)"

text \<open>
  \<^verbatim>\<open>n.label === "Negotiation" || (n.properties?.previousRate &&
  n.properties.previousRate !== n.properties.monthlyRate)\<close>
\<close>

definition node_active :: "node \<Rightarrow> jv option" where
  "node_active n =
     (if node_label n = ''Negotiation'' then Some (JBool True)
      else let previous = opt_get (node_properties n) ''previousRate''
           in if truthy previous then do {
                previousRate \<leftarrow> get (node_properties n) ''previousRate'';
                monthlyRate \<leftarrow> get (node_properties n) ''monthlyRate'';
                Some (JBool (\<not> strict_eq previousRate monthlyRate))
              } else Some previous)"

definition position_node :: "positions \<Rightarrow> node \<Rightarrow> positioned_node option" where
  "position_node ps n = do {
     px \<leftarrow> get_x (positions_get ps (node_id n));
     py \<leftarrow> get_y (positions_get ps (node_id n));
     active \<leftarrow> node_active n;
     Some \<lparr>item_node = n, item_x = px, item_y = py, item_active = active\<rparr>
   }"

text \<open>
  \<^verbatim>\<open>EDGE_LABELS[l.type] || l.type?.replace(/_/g, " ")\<close>. For a type named like a
  property inherited from \<^verbatim>\<open>Object.prototype\<close> the lookup finds the inherited value,
  which is truthy.
\<close>

definition edge_label_of :: "string option \<Rightarrow> label_value" where
  "edge_label_of ty =
     (case ty of
        None \<Rightarrow> LabelUndefined
      | Some t \<Rightarrow> (case map_of EDGE_LABELS t of
                     Some lab \<Rightarrow> LabelText lab
                   | None \<Rightarrow> if t \<in> set object_prototype_names then LabelInherited
                             else LabelText (replace_underscores t)))"

definition render_edge :: "positions \<Rightarrow> link \<Rightarrow> edge option" where
  "render_edge ps l = do {
     x1 \<leftarrow> get_x (positions_get ps (sourceId l));
     y1 \<leftarrow> get_y (positions_get ps (sourceId l));
     x2 \<leftarrow> get_x (positions_get ps (targetId l));
     y2 \<leftarrow> get_y (positions_get ps (targetId l));
     Some \<lparr>edge_x1 = x1, edge_y1 = y1, edge_x2 = x2, edge_y2 = y2,
           edge_label = edge_label_of (link_type l),
           edge_status = opt_get (link_properties l) ''status''\<rparr>
   }"

definition computeLayout :: "graph_data \<Rightarrow> layout option" where
  "computeLayout g =
     (if length (nodes g) = 0 then Some \<lparr>positioned = [], edges = []\<rparr>
      else do {
        let ps = layout_positions g;
        positioned_items \<leftarrow>
          those (map (position_node ps)
                   (filter (\<lambda>n. truthy_value (positions_get ps (node_id n))) (nodes g)));
        edge_items \<leftarrow>
          those (map (render_edge ps)
                   (filter (\<lambda>l. truthy_value (positions_get ps (sourceId l))
                                \<and> truthy_value (positions_get ps (targetId l))) (links g)));
        Some \<lparr>positioned = positioned_items, edges = edge_items\<rparr>
      })"


section \<open>Periodic snapshot fetch of \<^verbatim>\<open>KnowledgeGraph\<close>\<close>

text \<open>
  The component starts one fetch when it mounts (number \<open>0\<close>) and one more every six
  seconds. Each fetch is \<^verbatim>\<open>api.getGraph().then(setGraphData).catch(() => {})\<close>; the
  first one also ends with \<^verbatim>\<open>.finally(() => setLoading(false))\<close>. What the component
  sees is the sequence of these happenings, in the order in which they happen.
\<close>

record graph_state =
  graphData :: graph_data
  loading :: bool

datatype fetch_event =
    Initiated nat
  | Resolved nat graph_data
  | Rejected nat

definition initial_graph_state :: graph_state where
  "initial_graph_state = \<lparr>graphData = \<lparr>nodes = [], links = []\<rparr>, loading = True\<rparr>"

fun fetch_step :: "graph_state \<Rightarrow> fetch_event \<Rightarrow> graph_state" where
  "fetch_step st (Initiated k) = st"
| "fetch_step st (Resolved k g) =
     (let st1 = st\<lparr>graphData := g\<rparr> in if k = 0 then st1\<lparr>loading := False\<rparr> else st1)"
| "fetch_step st (Rejected k) = (if k = 0 then st\<lparr>loading := False\<rparr> else st)"

definition run_fetches :: "graph_state \<Rightarrow> fetch_event list \<Rightarrow> graph_state" where
  "run_fetches st evs = foldl fetch_step st evs"

text \<open>The number of the fetch started last, and what a fetch resolved with.\<close>

fun last_initiated :: "fetch_event list \<Rightarrow> nat option" where
  "last_initiated [] = None"
| "last_initiated (e # es) =
     (case last_initiated es of
        Some k \<Rightarrow> Some k
      | None \<Rightarrow> (case e of Initiated k \<Rightarrow> Some k | _ \<Rightarrow> None))"

fun result_of :: "nat \<Rightarrow> fetch_event list \<Rightarrow> graph_data option" where
  "result_of k [] = None"
| "result_of k (e # es) =
     (case e of
        Resolved j g \<Rightarrow> if j = k then Some g else result_of k es
      | _ \<Rightarrow> result_of k es)"

text \<open>The snapshot of the last fetch that resolved.\<close>

fun last_resolved :: "fetch_event list \<Rightarrow> graph_data option" where
  "last_resolved [] = None"
| "last_resolved (e # es) =
     (case last_resolved es of
        Some g \<Rightarrow> Some g
      | None \<Rightarrow> (case e of Resolved k g \<Rightarrow> Some g | _ \<Rightarrow> None))"


section \<open>Notions used in the properties\<close>

text \<open>
  A reset signal is a message of type \<^verbatim>\<open>task_updated\<close> whose payload has
  \<^verbatim>\<open>reset\<close> equal to \<^verbatim>\<open>true\<close>. An ordinary event is a parsed message other than
  \<^verbatim>\<open>null\<close> that is not a reset signal.
\<close>

definition is_reset_signal :: "jv \<Rightarrow> bool" where
  "is_reset_signal e \<longleftrightarrow>
     prop_of e ''type'' = JStr ''task_updated'' \<and> opt_get (prop_of e ''data'') ''reset'' = JBool True"

definition ordinary_event :: "jv \<Rightarrow> bool" where
  "ordinary_event e \<longleftrightarrow> \<not> nullish e \<and> \<not> is_reset_signal e"

text \<open>Sample messages.\<close>

definition numbered_event :: "nat \<Rightarrow> jv" where
  "numbered_event i = JObj [(''type'', JStr ''transcript''), (''data'', JObj [(''line'', JNum (int i))])]"

definition reset_event :: jv where
  "reset_event = JObj [(''type'', JStr ''task_updated''), (''data'', JObj [(''reset'', JBool True)])]"

definition event_of :: "string \<Rightarrow> (string \<times> jv) list \<Rightarrow> jv" where
  "event_of ty payload = JObj [(''type'', JStr ty), (''data'', JObj payload)]"

definition ev_entity :: jv where
  "ev_entity = event_of ''entity_extracted''
     [(''entity_type'', JStr ''confirmation_number''), (''value'', JStr ''CNF-2026-8847'')]"

definition ev_graph :: jv where
  "ev_graph = event_of ''graph_updated''
     [(''service'', JStr ''Comcast''),
      (''details'', JObj [(''monthly_savings'', JNum 20), (''annual_savings'', JNum 240)])]"

definition ev_research_confirmed :: jv where
  "ev_research_confirmed = event_of ''task_updated''
     [(''phase'', JStr ''research''),
      (''confirmed_action'', JObj [(''action'', JStr ''negotiate_rate''), (''service'', JStr ''Comcast''),
                                   (''monthly_savings'', JNum 20)])]"

definition ev_dispatch_confirmed :: jv where
  "ev_dispatch_confirmed = event_of ''task_updated''
     [(''phase'', JStr ''dispatch''),
      (''confirmed_action'', JObj [(''action'', JStr ''cancel_service''), (''service'', JStr ''Netflix'')])]"

text \<open>
  A statement of the loop body appends: what it returns for \<open>s\<close> is \<open>s\<close> followed by what it
  returns for the empty list.
\<close>

definition appends :: "(step list \<Rightarrow> step list option) \<Rightarrow> bool" where
  "appends r \<longleftrightarrow> (\<forall>s. r s = map_option ((@) s) (r []))"

text \<open>The ten statements of the loop body, for a payload \<open>d\<close> and a type \<open>ty\<close>.\<close>

definition dispatch_rules :: "(string \<Rightarrow> bool) \<Rightarrow> jv \<Rightarrow> jv \<Rightarrow> step list \<Rightarrow> step list option" where
  "dispatch_rules f d ty steps0 = do {
     steps1 \<leftarrow> when_type ty ''task_updated'' (on_task_updated d) steps0;
     steps2 \<leftarrow> when_type ty ''tool_call'' (on_tool_call d) steps1;
     steps3 \<leftarrow> when_type ty ''call_status'' (on_call_status d) steps2;
     steps4 \<leftarrow> when_type ty ''voice_analysis'' (on_voice_analysis f d) steps3;
     steps5 \<leftarrow> when_type ty ''entity_extracted'' (on_entity_extracted d) steps4;
     steps6 \<leftarrow> when_type ty ''graph_updated'' (on_graph_updated d) steps5;
     steps7 \<leftarrow> when_type ty ''bill_analyzed'' (on_bill_analyzed d) steps6;
     steps8 \<leftarrow> when_type ty ''call_summary'' (on_call_summary d) steps7;
     steps9 \<leftarrow> when_type ty ''modulate_analysis'' (on_modulate_analysis d) steps8;
     when_type ty ''pii_detected'' (on_pii_detected d) steps9
   }"

text \<open>The payload \<^verbatim>\<open>ev.data || {}\<close> of an event.\<close>

definition payload_of :: "jv \<Rightarrow> jv" where
  "payload_of ev = js_or (prop_of ev ''data'') (JObj [])"

text \<open>
  The categories of the rows of the rule table that apply to the payload of a
  \<^verbatim>\<open>task_updated\<close> event, in the order of the table: research, research_complete,
  confirmed_action, dispatch.
\<close>

definition task_updated_rows :: "jv \<Rightarrow> string list" where
  "task_updated_rows d =
     (if prop_of d ''phase'' = JStr ''research'' then [''research''] else [])
     @ (if prop_of d ''phase'' = JStr ''research_complete'' then [''strategy''] else [])
     @ (if truthy (prop_of d ''confirmed_action'') then [''summary''] else [])
     @ (if prop_of d ''phase'' = JStr ''dispatch'' then [''call''] else [])"

text \<open>
  Well-formed events. Every field of a payload is optional; a field that is there has the
  type its kind of event gives it: the fields that the deriver prints are scalars (a string,
  a number, a boolean or \<^verbatim>\<open>null\<close>), \<^verbatim>\<open>entity_type\<close> is a string,
  \<^verbatim>\<open>key_insights\<close> is an array, and \<^verbatim>\<open>confirmed_action\<close>, \<^verbatim>\<open>details\<close>,
  \<^verbatim>\<open>agent_performance\<close> and its grades are objects of scalars.
\<close>

fun scalar :: "jv \<Rightarrow> bool" where
  "scalar (JArr xs) = False"
| "scalar (JObj fs) = False"
| "scalar v = True"

fun is_object :: "jv \<Rightarrow> bool" where
  "is_object (JObj fs) = True"
| "is_object v = False"

fun is_array :: "jv \<Rightarrow> bool" where
  "is_array (JArr xs) = True"
| "is_array v = False"

fun is_string :: "jv \<Rightarrow> bool" where
  "is_string (JStr s) = True"
| "is_string v = False"

definition optional :: "(jv \<Rightarrow> bool) \<Rightarrow> jv \<Rightarrow> bool" where
  "optional P v \<longleftrightarrow> nullish v \<or> P v"

definition object_with_scalars :: "string list \<Rightarrow> jv \<Rightarrow> bool" where
  "object_with_scalars ks v \<longleftrightarrow> is_object v \<and> list_all (\<lambda>k. scalar (prop_of v k)) ks"

definition wf_payload :: "string \<Rightarrow> jv \<Rightarrow> bool" where
  "wf_payload ty d \<longleftrightarrow>
     (ty = ''task_updated'' \<longrightarrow>
        optional (object_with_scalars [''action'', ''service'', ''reason'', ''monthly_savings''])
          (prop_of d ''confirmed_action''))
   \<and> (ty = ''tool_call'' \<longrightarrow> scalar (prop_of d ''tool''))
   \<and> (ty = ''call_status'' \<longrightarrow>
        scalar (prop_of d ''company'') \<and> scalar (prop_of d ''duration_seconds'')
      \<and> scalar (prop_of d ''outcome''))
   \<and> (ty = ''voice_analysis'' \<longrightarrow>
        optional is_array (prop_of d ''key_insights'') \<and> scalar (prop_of d ''emotion''))
   \<and> (ty = ''entity_extracted'' \<longrightarrow> optional is_string (prop_of d ''entity_type''))
   \<and> (ty = ''graph_updated'' \<longrightarrow>
        scalar (prop_of d ''service'')
      \<and> optional (object_with_scalars [''monthly_savings'', ''annual_savings'']) (prop_of d ''details''))
   \<and> (ty = ''bill_analyzed'' \<longrightarrow>
        scalar (prop_of d ''provider_name'') \<and> scalar (prop_of d ''total_amount'')
      \<and> scalar (prop_of d ''price_change''))
   \<and> (ty = ''modulate_analysis'' \<longrightarrow>
        optional (\<lambda>perf. is_object perf
                    \<and> optional (object_with_scalars [''grade'']) (prop_of perf ''professionalism'')
                    \<and> optional (object_with_scalars [''grade'']) (prop_of perf ''privacy''))
          (prop_of d ''agent_performance''))
   \<and> (ty = ''pii_detected'' \<longrightarrow> scalar (prop_of d ''count''))"

definition wf_event :: "jv \<Rightarrow> bool" where
  "wf_event ev \<longleftrightarrow>
     is_object ev \<and> optional is_object (prop_of ev ''data'')
   \<and> (case prop_of ev ''type'' of JStr ty \<Rightarrow> wf_payload ty (payload_of ev) | _ \<Rightarrow> False)"

text \<open>
  \<open>prune K p v\<close> removes from the object \<open>v\<close>, found at the path \<open>p\<close>, every field whose path
  satisfies \<open>K\<close>, at any depth.
\<close>

fun prune :: "(string list \<Rightarrow> bool) \<Rightarrow> string list \<Rightarrow> jv \<Rightarrow> jv"
  and prune_fields :: "(string list \<Rightarrow> bool) \<Rightarrow> string list \<Rightarrow> (string \<times> jv) list \<Rightarrow> (string \<times> jv) list" where
  "prune K p (JObj fs) = JObj (prune_fields K p fs)"
| "prune K p JUndefined = JUndefined"
| "prune K p JNull = JNull"
| "prune K p (JBool b) = JBool b"
| "prune K p (JNum n) = JNum n"
| "prune K p (JStr s) = JStr s"
| "prune K p (JArr xs) = JArr xs"
| "prune_fields K p [] = []"
| "prune_fields K p ((k, v) # fs) =
     (if K (p @ [k]) then prune_fields K p fs
      else (k, prune K (p @ [k]) v) # prune_fields K p fs)"

definition sample_history :: "jv list" where
  "sample_history =
     [event_of ''task_updated'' [(''confirmed_action'', JObj [])],
      JObj [(''type'', JStr ''tool_call'')],
      event_of ''call_status'' [(''status'', JStr ''ended'')],
      event_of ''voice_analysis'' [(''key_insights'', JArr [JStr ''calm''])],
      JObj [(''type'', JStr ''entity_extracted'')],
      event_of ''graph_updated'' [(''details'', JObj [(''monthly_savings'', JNum 20)])],
      JObj [(''type'', JStr ''bill_analyzed'')],
      JObj [(''type'', JStr ''call_summary'')],
      event_of ''modulate_analysis'' [(''agent_performance'', JObj [(''professionalism'', JObj [])])],
      JObj [(''type'', JStr ''pii_detected'')]]"

text \<open>
  The three roles of the layout: the subject is the first node labelled \<^verbatim>\<open>Person\<close>, the
  resources are the nodes labelled \<^verbatim>\<open>Service\<close>, the outcomes those labelled
  \<^verbatim>\<open>Negotiation\<close>. A node is omitted when it has none of these roles: its label is another
  one, or it is a \<^verbatim>\<open>Person\<close> node after the first.
\<close>

definition person_of :: "graph_data \<Rightarrow> node option" where
  "person_of g = find (\<lambda>n. node_label n = ''Person'') (nodes g)"

definition services_of :: "graph_data \<Rightarrow> node list" where
  "services_of g = filter (\<lambda>n. node_label n = ''Service'') (nodes g)"

definition negotiations_of :: "graph_data \<Rightarrow> node list" where
  "negotiations_of g = filter (\<lambda>n. node_label n = ''Negotiation'') (nodes g)"

definition placed_nodes :: "graph_data \<Rightarrow> node set" where
  "placed_nodes g = set_option (person_of g) \<union> set (services_of g) \<union> set (negotiations_of g)"

definition omitted :: "graph_data \<Rightarrow> node \<Rightarrow> bool" where
  "omitted g n \<longleftrightarrow>
     node_label n \<noteq> ''Service'' \<and> node_label n \<noteq> ''Negotiation'' \<and> person_of g \<noteq> Some n"

text \<open>
  The id that a reference of a link denotes, in the words of the specification: the bare id
  itself, or the id of the embedded node object.
\<close>

fun ref_id :: "ref \<Rightarrow> string" where
  "ref_id (BareId i) = i"
| "ref_id (NodeObj n) = node_id n"

text \<open>A link with both references replaced by the bare ids they denote.\<close>

definition bare_link :: "link \<Rightarrow> link" where
  "bare_link l =
     l\<lparr>link_source := BareId (ref_id (link_source l)), link_target := BareId (ref_id (link_target l))\<rparr>"

text \<open>
  An id is plain when it is not the name of a property inherited from
  \<^verbatim>\<open>Object.prototype\<close>; a snapshot has plain ids when the ids of its nodes and the ids
  that its links refer to are plain.
\<close>

definition plain_id :: "string \<Rightarrow> bool" where
  "plain_id k \<longleftrightarrow> k \<notin> set object_prototype_names"

definition plain_ids :: "graph_data \<Rightarrow> bool" where
  "plain_ids g \<longleftrightarrow>
     list_all (\<lambda>n. plain_id (node_id n)) (nodes g)
   \<and> list_all (\<lambda>l. plain_id (ref_id (link_source l)) \<and> plain_id (ref_id (link_target l))) (links g)"

text \<open>A link both of whose endpoints are ids of nodes with a role.\<close>

definition both_placed :: "graph_data \<Rightarrow> link \<Rightarrow> bool" where
  "both_placed g l \<longleftrightarrow>
     ref_id (link_source l) \<in> node_id ` placed_nodes g
   \<and> ref_id (link_target l) \<in> node_id ` placed_nodes g"

text \<open>
  The positioned nodes and the rendered edges that \<^verbatim>\<open>computeLayout\<close> builds from the
  object \<^verbatim>\<open>positions\<close>, and the ids of the positioned nodes of a layout.
\<close>

definition positioned_of :: "positions \<Rightarrow> node list \<Rightarrow> positioned_node list" where
  "positioned_of ps ns =
     map (\<lambda>n. the (position_node ps n)) (filter (\<lambda>n. truthy_value (positions_get ps (node_id n))) ns)"

definition edges_of :: "positions \<Rightarrow> link list \<Rightarrow> edge list" where
  "edges_of ps ls =
     map (\<lambda>l. the (render_edge ps l))
       (filter (\<lambda>l. truthy_value (positions_get ps (sourceId l))
                    \<and> truthy_value (positions_get ps (targetId l))) ls)"

definition positioned_ids :: "layout \<Rightarrow> string set" where
  "positioned_ids lay = (\<lambda>item. node_id (item_node item)) ` set (positioned lay)"

text \<open>
  The edge \<open>e\<close> joins the link \<open>l\<close> in a layout: it runs from a positioned node with the id
  of the source of \<open>l\<close> to a positioned node with the id of its target, at their coordinates.
\<close>

definition edge_joins :: "layout \<Rightarrow> edge \<Rightarrow> link \<Rightarrow> bool" where
  "edge_joins lay e l \<longleftrightarrow>
     (\<exists>s\<in>set (positioned lay). \<exists>t\<in>set (positioned lay).
        node_id (item_node s) = ref_id (link_source l)
      \<and> node_id (item_node t) = ref_id (link_target l)
      \<and> edge_x1 e = item_x s \<and> edge_y1 e = item_y s
      \<and> edge_x2 e = item_x t \<and> edge_y2 e = item_y t)"

text \<open>Sample snapshots.\<close>

definition mk_node :: "string \<Rightarrow> string \<Rightarrow> node" where
  "mk_node i l = \<lparr>node_id = i, node_label = l, node_name = i, node_properties = JUndefined\<rparr>"

definition mk_link :: "ref \<Rightarrow> ref \<Rightarrow> string \<Rightarrow> link" where
  "mk_link s t ty = \<lparr>link_source = s, link_target = t, link_type = Some ty, link_properties = JUndefined\<rparr>"

definition sample_graph :: graph_data where
  "sample_graph = \<lparr>nodes = [mk_node ''P'' ''Person'', mk_node ''S1'' ''Service'', mk_node ''S2'' ''Service'',
       mk_node ''N1'' ''Negotiation'', mk_node ''X'' ''Other'', mk_node ''P2'' ''Person''],
     links = [mk_link (BareId ''P'') (BareId ''S1'') ''SUBSCRIBES_TO'',
              mk_link (NodeObj (mk_node ''P'' ''Person'')) (NodeObj (mk_node ''S1'' ''Service'')) ''SUBSCRIBES_TO'',
              mk_link (NodeObj (mk_node ''S2'' ''Service'')) (BareId ''N1'') ''NEGOTIATED'',
              mk_link (BareId ''P'') (BareId ''missing'') ''HAS_X'',
              mk_link (BareId ''P'') (BareId ''X'') ''HAS_X'']\<rparr>"

definition duplicate_links_graph :: graph_data where
  "duplicate_links_graph =
     \<lparr>nodes = [mk_node ''P'' ''Person'', mk_node ''S1'' ''Service''],
      links = [mk_link (BareId ''P'') (BareId ''S1'') ''SUBSCRIBES_TO'',
               mk_link (NodeObj (mk_node ''P'' ''Person'')) (NodeObj (mk_node ''S1'' ''Service''))
                 ''SUBSCRIBES_TO'']\<rparr>"

text \<open>
  A snapshot with one node and one link whose target, \<^verbatim>\<open>constructor\<close>, is the id of no
  node; and a snapshot with a Person node, a node of another label whose id is
  \<^verbatim>\<open>constructor\<close>, a second Person node whose id is \<^verbatim>\<open>toString\<close>, and a link to
  each of the two.
\<close>

definition inherited_target_graph :: graph_data where
  "inherited_target_graph =
     \<lparr>nodes = [mk_node ''P'' ''Person''],
      links = [mk_link (BareId ''P'') (BareId ''constructor'') ''SUBSCRIBES_TO'']\<rparr>"

definition inherited_ids_graph :: graph_data where
  "inherited_ids_graph =
     \<lparr>nodes = [mk_node ''P'' ''Person'', mk_node ''constructor'' ''Other'', mk_node ''toString'' ''Person''],
      links = [mk_link (BareId ''P'') (BareId ''constructor'') ''HAS_X'',
               mk_link (NodeObj (mk_node ''toString'' ''Person'')) (BareId ''P'') ''KNOWS'']\<rparr>"

definition snapshot_old :: graph_data where
  "snapshot_old = \<lparr>nodes = [mk_node ''P'' ''Person''], links = []\<rparr>"

definition snapshot_new :: graph_data where
  "snapshot_new = \<lparr>nodes = [mk_node ''P'' ''Person'', mk_node ''S1'' ''Service''], links = []\<rparr>"

text \<open>
  Two fetches overlap: the second one is started before the first one resolves, and the
  first one resolves last.
\<close>

definition overlapping_fetches :: "fetch_event list" where
  "overlapping_fetches = [Initiated 0, Initiated 1, Resolved 1 snapshot_new, Resolved 0 snapshot_old]"

section \<open>Facts about JavaScript values\<close>

lemma strict_eq_JStr [simp]: "strict_eq v (JStr s) \<longleftrightarrow> v = JStr s"
  by (cases v) auto

lemma strict_eq_JBool [simp]: "strict_eq v (JBool b) \<longleftrightarrow> v = JBool b"
  by (cases v) auto

lemma strict_eq_JNum [simp]: "strict_eq v (JNum n) \<longleftrightarrow> v = JNum n"
  by (cases v) auto

lemma get_not_nullish [simp]: "\<not> nullish v \<Longrightarrow> get v k = Some (prop_of v k)"
  by (simp add: get_def)

lemma get_nullish [simp]: "nullish v \<Longrightarrow> get v k = None"
  by (simp add: get_def)


section \<open>Properties of the stream buffer\<close>

lemma events_handler_reset:
  "\<not> nullish e \<Longrightarrow> is_reset_signal e \<Longrightarrow> events (handler st (Some e)) = []"
  by (simp add: handler_def is_reset_signal_def)

lemma events_handler_append:
  "\<not> nullish e \<Longrightarrow> \<not> is_reset_signal e \<Longrightarrow>
   events (handler st (Some e)) = slice_last 150 (events st @ [e])"
  by (auto simp add: handler_def is_reset_signal_def Let_def)

lemma events_handler_dropped:
  "nullish e \<Longrightarrow> handler st (Some e) = st"
  by (simp add: handler_def)

lemma slice_last_suffix: "suffix (slice_last n xs) xs"
  by (simp add: slice_last_def suffix_drop)

lemma slice_last_snoc_last: "0 < n \<Longrightarrow> last (slice_last n (xs @ [x])) = x"
  by (simp add: slice_last_def)

lemma slice_last_snoc_nonempty: "0 < n \<Longrightarrow> slice_last n (xs @ [x]) \<noteq> []"
  by (simp add: slice_last_def)

lemma slice_last_short: "length xs \<le> n \<Longrightarrow> slice_last n xs = xs"
  by (simp add: slice_last_def)

lemma length_slice_last: "length (slice_last n xs) = min n (length xs)"
  by (simp add: slice_last_def)

lemma slice_last_append_slice:
  "slice_last n (slice_last n xs @ ys) = slice_last n (xs @ ys)"
proof (cases "length xs \<le> n")
  case True
  then show ?thesis by (simp add: slice_last_def)
next
  case False
  then have "length xs - n + (length ys + n - n) = length xs + length ys - n"
    by arith
  with False show ?thesis
    by (simp add: slice_last_def min_def add.commute)
qed

lemma buildReasoningChain_Nil: "buildReasoningChain f [] = Some []"
  by (simp add: buildReasoningChain_def)

text \<open>
  Claim C1. Let \<open>e\<close> be an incoming event (a parsed message other than \<^verbatim>\<open>null\<close>) and
  let the history be arbitrary. If \<open>e\<close> is a reset signal, the history becomes the empty
  sequence, of length 0, the derived step sequence is empty, and an ordinary event that
  follows leaves the history, and so the step sequence, that the same event gives on the
  initial, empty history. If \<open>e\<close> is not a reset signal it is appended: it is the last element
  of the new history, the new history is the suffix of the old one followed by \<open>e\<close> that
  has at most 150 elements, and it is exactly the old one followed by \<open>e\<close> while the
  retention bound is not reached.
\<close>

theorem reset_clears_else_appends:
  assumes "\<not> nullish e"
  shows "(is_reset_signal e \<longrightarrow>
            events (handler st (Some e)) = []
          \<and> length (events (handler st (Some e))) = 0
          \<and> buildReasoningChain f (events (handler st (Some e))) = Some []
          \<and> (\<forall>e2. \<not> nullish e2 \<and> \<not> is_reset_signal e2 \<longrightarrow>
                 events (handler (handler st (Some e)) (Some e2)) = [e2]
               \<and> buildReasoningChain f (events (handler (handler st (Some e)) (Some e2)))
                   = buildReasoningChain f (events (handler initial_state (Some e2)))))
       \<and> (\<not> is_reset_signal e \<longrightarrow>
            suffix (events (handler st (Some e))) (events st @ [e])
          \<and> last (events (handler st (Some e))) = e
          \<and> length (events (handler st (Some e))) = min 150 (length (events st) + 1)
          \<and> (length (events st) < 150 \<longrightarrow> events (handler st (Some e)) = events st @ [e]))"
proof (cases "is_reset_signal e")
  case True
  have cleared: "events (handler st (Some e)) = []"
    using assms True by (rule events_handler_reset)
  have "events (handler (handler st (Some e)) (Some e2)) = [e2]
      \<and> events (handler initial_state (Some e2)) = [e2]"
    if "\<not> nullish e2" "\<not> is_reset_signal e2" for e2
    using that cleared
    by (simp add: events_handler_append slice_last_short initial_state_def)
  with True cleared show ?thesis
    by (simp add: buildReasoningChain_Nil)
next
  case False
  have appended: "events (handler st (Some e)) = slice_last 150 (events st @ [e])"
    using assms False by (rule events_handler_append)
  have "suffix (slice_last 150 (events st @ [e])) (events st @ [e])"
    by (rule slice_last_suffix)
  moreover have "last (slice_last 150 (events st @ [e])) = e"
    by (rule slice_last_snoc_last) simp
  moreover have "length (slice_last 150 (events st @ [e])) = min 150 (length (events st) + 1)"
    by (simp add: length_slice_last)
  moreover have "slice_last 150 (events st @ [e]) = events st @ [e]" if "length (events st) < 150"
    using that by (simp add: slice_last_short)
  ultimately show ?thesis
    using False by (simp only: appended) blast
qed


theorem reset_clears_else_appends_witness:
  "\<not> nullish reset_event \<and> is_reset_signal reset_event
   \<and> length (map numbered_event [0..<40]) = 40
   \<and> events (handler (initial_state\<lparr>events := map numbered_event [0..<40]\<rparr>) (Some reset_event)) = []
   \<and> buildReasoningChain (\<lambda>s. False)
        (events (handler (initial_state\<lparr>events := map numbered_event [0..<40]\<rparr>) (Some reset_event)))
       = Some []
   \<and> \<not> nullish (numbered_event 7) \<and> \<not> is_reset_signal (numbered_event 7)
   \<and> events (handler (initial_state\<lparr>events := [numbered_event 3]\<rparr>) (Some (numbered_event 7)))
       = [numbered_event 3, numbered_event 7]"
proof -
  have r: "\<not> nullish reset_event" "is_reset_signal reset_event"
    by (simp_all add: reset_event_def is_reset_signal_def opt_get_def)
  have o: "\<not> nullish (numbered_event 7)" "\<not> is_reset_signal (numbered_event 7)"
    by (simp_all add: numbered_event_def is_reset_signal_def)
  have "length (events (initial_state\<lparr>events := [numbered_event 3]\<rparr>)) < 150"
    by simp
  with o reset_clears_else_appends [OF o(1), of "initial_state\<lparr>events := [numbered_event 3]\<rparr>" "\<lambda>s. False"]
  have "events (handler (initial_state\<lparr>events := [numbered_event 3]\<rparr>) (Some (numbered_event 7)))
      = [numbered_event 3, numbered_event 7]"
    by simp
  with r o reset_clears_else_appends [OF r(1),
      of "initial_state\<lparr>events := map numbered_event [0..<40]\<rparr>" "\<lambda>s. False"]
  show ?thesis
    by (simp add: buildReasoningChain_Nil)
qed

lemma ingest_snoc: "ingest st (msgs @ [m]) = handler (ingest st msgs) m"
  by (simp add: ingest_def)

lemma events_ingest_ordinary:
  "\<forall>e\<in>set es. ordinary_event e \<Longrightarrow>
   events (ingest st (map Some es)) = slice_last 150 (events st @ es)"
  if "length (events st) \<le> 150"
proof (induction es rule: rev_induct)
  case Nil
  with that show ?case by (simp add: ingest_def slice_last_short)
next
  case (snoc e es)
  then have "events (ingest st (map Some es)) = slice_last 150 (events st @ es)"
    and "\<not> nullish e" "\<not> is_reset_signal e"
    by (simp_all add: ordinary_event_def)
  then have "events (ingest st (map Some (es @ [e])))
      = slice_last 150 (slice_last 150 (events st @ es) @ [e])"
    by (simp add: ingest_snoc events_handler_append)
  then show ?case
    by (simp add: slice_last_append_slice)
qed

lemma length_events_handler:
  "length (events st) \<le> 150 \<Longrightarrow> length (events (handler st m)) \<le> 150"
  by (auto simp add: handler_def Let_def length_slice_last split: option.splits)

lemma length_events_ingest:
  "length (events st) \<le> 150 \<Longrightarrow> length (events (ingest st msgs)) \<le> 150"
  by (induction msgs rule: rev_induct) (simp_all add: ingest_def length_events_handler)

text \<open>
  Claim C2. Whatever messages arrive, the history never holds more than 150 events. After a
  sequence of ordinary (non-reset) events, starting from the initial state, the history is
  that sequence without its oldest elements beyond the last 150, in the original order; in
  particular 151 events leave exactly the last 150.
\<close>

theorem history_retention_bound:
  "length (events (ingest initial_state msgs)) \<le> 150
   \<and> ((\<forall>e\<in>set es. ordinary_event e) \<longrightarrow>
        events (ingest initial_state (map Some es)) = drop (length es - 150) es
      \<and> (length es = 151 \<longrightarrow>
           events (ingest initial_state (map Some es)) = tl es
         \<and> length (events (ingest initial_state (map Some es))) = 150))"
proof -
  have bound: "length (events (ingest initial_state msgs)) \<le> 150"
    by (rule length_events_ingest) (simp add: initial_state_def)
  have kept: "events (ingest initial_state (map Some es)) = drop (length es - 150) es"
    if "\<forall>e\<in>set es. ordinary_event e"
    using events_ingest_ordinary [OF _ that, of initial_state]
    by (simp add: initial_state_def slice_last_def)
  have "drop (length es - 150) es = tl es \<and> length (tl es) = 150" if "length es = 151"
    using that by (simp add: drop_Suc)
  with bound kept show ?thesis
    by auto
qed

lemma ordinary_numbered_event: "ordinary_event (numbered_event i)"
  by (simp add: ordinary_event_def numbered_event_def is_reset_signal_def)

theorem history_retention_bound_witness:
  "list_all ordinary_event (map numbered_event [0..<151])
   \<and> length (map numbered_event [0..<151]) = 151
   \<and> events (ingest initial_state (map Some (map numbered_event [0..<151])))
       = map numbered_event [1..<151]"
proof -
  have ord: "\<forall>e\<in>set (map numbered_event [0..<151]). ordinary_event e"
    by (simp add: ordinary_numbered_event)
  have len: "length (map numbered_event [0..<151]) = 151"
    by simp
  have "tl (map numbered_event [0..<151]) = map numbered_event [1..<151]"
    by (simp add: map_tl [symmetric] del: upt_Suc)
  moreover have "events (ingest initial_state (map Some (map numbered_event [0..<151])))
      = tl (map numbered_event [0..<151])"
    using history_retention_bound [of "[]" "map numbered_event [0..<151]"] ord len
    by blast
  ultimately show ?thesis
    using ord len by (simp only: list_all_iff)
qed

text \<open>
  Claim C9. For an incoming event \<open>e\<close> (a parsed message other than \<^verbatim>\<open>null\<close>), the
  history is cleared exactly when the type of \<open>e\<close> is \<^verbatim>\<open>task_updated\<close> and the
  \<^verbatim>\<open>reset\<close> field of its payload is the boolean \<^verbatim>\<open>true\<close>. When the type differs or
  \<^verbatim>\<open>reset\<close> is anything else, such as \<^verbatim>\<open>1\<close> or \<^verbatim>\<open>"true"\<close>, the event is
  appended like any other event.
\<close>

theorem reset_requires_boolean_true:
  assumes "\<not> nullish e"
  shows "(events (handler st (Some e)) = []
            \<longleftrightarrow> prop_of e ''type'' = JStr ''task_updated''
                \<and> opt_get (prop_of e ''data'') ''reset'' = JBool True)
       \<and> (prop_of e ''type'' \<noteq> JStr ''task_updated''
            \<or> opt_get (prop_of e ''data'') ''reset'' \<noteq> JBool True
          \<longrightarrow> events (handler st (Some e)) = slice_last 150 (events st @ [e])
            \<and> last (events (handler st (Some e))) = e
            \<and> (length (events st) < 150 \<longrightarrow> events (handler st (Some e)) = events st @ [e]))"
proof (cases "is_reset_signal e")
  case True
  with assms show ?thesis
    by (simp add: events_handler_reset) (simp add: is_reset_signal_def)
next
  case False
  with assms have "events (handler st (Some e)) = slice_last 150 (events st @ [e])"
    by (rule events_handler_append)
  moreover have "slice_last 150 (events st @ [e]) \<noteq> []"
    by (rule slice_last_snoc_nonempty) simp
  moreover have "last (slice_last 150 (events st @ [e])) = e"
    by (rule slice_last_snoc_last) simp
  moreover have "slice_last 150 (events st @ [e]) = events st @ [e]" if "length (events st) < 150"
    using that by (simp add: slice_last_short)
  ultimately show ?thesis
    using False by (simp add: is_reset_signal_def)
qed

theorem reset_requires_boolean_true_witness:
  "events (handler (initial_state\<lparr>events := [numbered_event 0]\<rparr>)
             (Some (event_of ''task_updated'' [(''reset'', JNum 1)])))
     = [numbered_event 0, event_of ''task_updated'' [(''reset'', JNum 1)]]
   \<and> events (handler (initial_state\<lparr>events := [numbered_event 0]\<rparr>)
             (Some (event_of ''task_updated'' [(''reset'', JStr ''true'')])))
     = [numbered_event 0, event_of ''task_updated'' [(''reset'', JStr ''true'')]]
   \<and> events (handler (initial_state\<lparr>events := [numbered_event 0]\<rparr>)
             (Some (event_of ''call_status'' [(''reset'', JBool True)])))
     = [numbered_event 0, event_of ''call_status'' [(''reset'', JBool True)]]
   \<and> events (handler (initial_state\<lparr>events := [numbered_event 0]\<rparr>)
             (Some (event_of ''task_updated'' [(''reset'', JBool True)])))
     = []"
  using
    reset_requires_boolean_true [of "event_of ''task_updated'' [(''reset'', JNum 1)]"
      "initial_state\<lparr>events := [numbered_event 0]\<rparr>"]
    reset_requires_boolean_true [of "event_of ''task_updated'' [(''reset'', JStr ''true'')]"
      "initial_state\<lparr>events := [numbered_event 0]\<rparr>"]
    reset_requires_boolean_true [of "event_of ''call_status'' [(''reset'', JBool True)]"
      "initial_state\<lparr>events := [numbered_event 0]\<rparr>"]
    reset_requires_boolean_true [of "event_of ''task_updated'' [(''reset'', JBool True)]"
      "initial_state\<lparr>events := [numbered_event 0]\<rparr>"]
  by (simp add: event_of_def opt_get_def slice_last_def)


section \<open>Properties of the reasoning chain deriver\<close>

lemma appendsI: "(\<And>s. r s = map_option ((@) s) (r [])) \<Longrightarrow> appends r"
  unfolding appends_def by blast

lemma appendsD: "appends r \<Longrightarrow> r s = map_option ((@) s) (r [])"
  unfolding appends_def by blast

lemma appends_Some: "appends Some"
  by (rule appendsI) simp

lemma appends_bind:
  assumes "appends r1" "appends r2"
  shows "appends (\<lambda>s. Option.bind (r1 s) r2)"
proof (rule appendsI)
  fix s
  show "Option.bind (r1 s) r2 = map_option ((@) s) (Option.bind (r1 []) r2)"
  proof (cases "r1 []")
    case None
    with appendsD [OF assms(1), of s] show ?thesis by simp
  next
    case (Some t)
    with appendsD [OF assms(1), of s] have "r1 s = Some (s @ t)" by simp
    moreover have "r2 (s @ t) = map_option ((@) s) (r2 t)"
    proof (cases "r2 []")
      case None
      with appendsD [OF assms(2), of "s @ t"] appendsD [OF assms(2), of t]
      show ?thesis by simp
    next
      case (Some u)
      with appendsD [OF assms(2), of "s @ t"] appendsD [OF assms(2), of t]
      show ?thesis by simp
    qed
    ultimately show ?thesis using Some by simp
  qed
qed

lemma appends_when_type:
  assumes "appends block"
  shows "appends (when_type ty name block)"
proof (rule appendsI)
  fix s
  show "when_type ty name block s = map_option ((@) s) (when_type ty name block [])"
    using appendsD [OF assms, of s] by (simp add: when_type_def)
qed


lemma appends_task_updated_rules:
  "appends (rule_research d)" "appends (rule_research_complete d)"
  "appends (rule_confirmed_action d)" "appends (rule_dispatch d)"
  by (rule appendsI;
      auto simp add: rule_research_def rule_research_complete_def rule_confirmed_action_def
        rule_dispatch_def split: Option.bind_splits if_splits)+

lemma appends_call_status_rules:
  "appends (rule_ringing d)" "appends (rule_in_progress d)" "appends (rule_ended d)"
  by (rule appendsI;
      auto simp add: rule_ringing_def rule_in_progress_def rule_ended_def
        split: Option.bind_splits if_splits)+

lemma on_tool_call_appends:
  "on_tool_call d steps0 = map_option ((@) steps0) (on_tool_call d [])"
  by (auto simp add: on_tool_call_def split: Option.bind_splits if_splits)

lemma on_voice_analysis_appends:
  "on_voice_analysis f d steps0 = map_option ((@) steps0) (on_voice_analysis f d [])"
  by (auto simp add: on_voice_analysis_def Let_def split: Option.bind_splits if_splits)

lemma on_entity_extracted_appends:
  "on_entity_extracted d steps0 = map_option ((@) steps0) (on_entity_extracted d [])"
  by (auto simp add: on_entity_extracted_def split: Option.bind_splits if_splits)

lemma on_graph_updated_appends:
  "on_graph_updated d steps0 = map_option ((@) steps0) (on_graph_updated d [])"
  by (auto simp add: on_graph_updated_def Let_def split: Option.bind_splits if_splits)

lemma on_bill_analyzed_appends:
  "on_bill_analyzed d steps0 = map_option ((@) steps0) (on_bill_analyzed d [])"
  by (auto simp add: on_bill_analyzed_def split: Option.bind_splits if_splits)

lemma on_call_summary_appends:
  "on_call_summary d steps0 = map_option ((@) steps0) (on_call_summary d [])"
  by (auto simp add: on_call_summary_def split: Option.bind_splits if_splits)

lemma on_modulate_analysis_appends:
  "on_modulate_analysis d steps0 = map_option ((@) steps0) (on_modulate_analysis d [])"
  by (auto simp add: on_modulate_analysis_def Let_def split: Option.bind_splits if_splits)

lemma on_pii_detected_appends:
  "on_pii_detected d steps0 = map_option ((@) steps0) (on_pii_detected d [])"
  by (auto simp add: on_pii_detected_def split: Option.bind_splits if_splits)


lemma appends_blocks:
  "appends (on_task_updated d)" "appends (on_tool_call d)" "appends (on_call_status d)"
  "appends (on_voice_analysis f d)" "appends (on_entity_extracted d)"
  "appends (on_graph_updated d)" "appends (on_bill_analyzed d)" "appends (on_call_summary d)"
  "appends (on_modulate_analysis d)" "appends (on_pii_detected d)"
proof -
  show "appends (on_task_updated d)"
    unfolding on_task_updated_def by (intro appends_bind appends_task_updated_rules)
  show "appends (on_call_status d)"
    unfolding on_call_status_def by (intro appends_bind appends_call_status_rules)
qed (rule appendsI, rule on_tool_call_appends
      on_voice_analysis_appends on_entity_extracted_appends on_graph_updated_appends
      on_bill_analyzed_appends on_call_summary_appends on_modulate_analysis_appends
      on_pii_detected_appends)+

lemma event_body_dispatch:
  "event_body f steps0 ev =
     (if nullish ev then None
      else dispatch_rules f (js_or (prop_of ev ''data'') (JObj [])) (prop_of ev ''type'') steps0)"
  by (simp add: event_body_def dispatch_rules_def Let_def)

lemma appends_dispatch_rules: "appends (dispatch_rules f d ty)"
  unfolding dispatch_rules_def
  by (intro appends_bind appends_when_type appends_blocks)

lemma event_body_appends:
  "event_body f steps0 ev = map_option ((@) steps0) (event_body f [] ev)"
proof (cases "nullish ev")
  case True
  then show ?thesis by (simp add: event_body_dispatch)
next
  case False
  then show ?thesis
    using appendsD [OF appends_dispatch_rules, of f _ _ steps0]
    by (simp only: event_body_dispatch if_False)
qed

lemma for_events_append:
  "for_events f steps0 (xs @ ys) = Option.bind (for_events f steps0 xs) (\<lambda>s. for_events f s ys)"
  by (induction xs arbitrary: steps0) (simp_all split: option.splits)

lemma for_events_appends:
  "for_events f steps0 evs = map_option ((@) steps0) (for_events f [] evs)"
proof (induction evs arbitrary: steps0 rule: rev_induct)
  case Nil
  show ?case by simp
next
  case (snoc e evs)
  show ?case
  proof (cases "for_events f [] evs")
    case None
    with snoc [of steps0] show ?thesis by (simp add: for_events_append)
  next
    case (Some S)
    with snoc [of steps0] have "for_events f steps0 evs = Some (steps0 @ S)" by simp
    with Some event_body_appends [of f "steps0 @ S" e] event_body_appends [of f S e]
    show ?thesis
      by (cases "event_body f [] e") (simp_all add: for_events_append)
  qed
qed

lemma buildReasoningChain_append:
  "buildReasoningChain f (xs @ ys) =
     Option.bind (buildReasoningChain f xs)
       (\<lambda>S. map_option ((@) S) (buildReasoningChain f ys))"
proof (cases "for_events f [] xs")
  case None
  then show ?thesis
    by (simp add: buildReasoningChain_def for_events_append)
next
  case (Some S)
  then show ?thesis
    using for_events_appends [of f S ys]
    by (simp add: buildReasoningChain_def for_events_append)
qed

lemma buildReasoningChain_single:
  "buildReasoningChain f [e] = event_body f [] e"
  by (simp add: buildReasoningChain_def split: option.splits)

text \<open>
  Claim C4. For every history \<open>H\<close> and event \<open>e\<close>, the deriver returns the step sequence
  \<open>S'\<close> for \<open>H\<close> extended by \<open>e\<close> exactly when it returns a sequence \<open>S\<close> for \<open>H\<close> and the
  sequence \<open>T\<close> of zero or more steps for \<open>e\<close> alone, and \<open>S'\<close> is \<open>S\<close> followed by \<open>T\<close>: the
  steps derived from \<open>H\<close> are a prefix of \<open>S'\<close>, none of them changed, removed or moved.
\<close>

theorem monotonic_prefix:
  "buildReasoningChain f (H @ [e]) = Some S'
     \<longleftrightarrow> (\<exists>S T. buildReasoningChain f H = Some S \<and> event_body f [] e = Some T
               \<and> S' = S @ T \<and> prefix S S')"
  by (auto simp add: buildReasoningChain_append buildReasoningChain_single
      split: Option.bind_splits)


theorem monotonic_prefix_witness:
  "\<exists>S T. buildReasoningChain (\<lambda>s. False) [ev_entity] = Some S
         \<and> event_body (\<lambda>s. False) [] ev_graph = Some T
         \<and> length S = 1 \<and> length T = 1
         \<and> buildReasoningChain (\<lambda>s. False) ([ev_entity] @ [ev_graph]) = Some (S @ T)
         \<and> prefix S (S @ T)"
proof -
  have "map_option length (buildReasoningChain (\<lambda>s. False) ([ev_entity] @ [ev_graph])) = Some 2"
    by code_simp
  then obtain S' where
    s': "buildReasoningChain (\<lambda>s. False) ([ev_entity] @ [ev_graph]) = Some S'" by blast
  with monotonic_prefix [of "\<lambda>s. False" "[ev_entity]" ev_graph S'] obtain S T where
    st: "buildReasoningChain (\<lambda>s. False) [ev_entity] = Some S"
      "event_body (\<lambda>s. False) [] ev_graph = Some T" "S' = S @ T" "prefix S S'"
    by blast
  moreover have "map_option length (buildReasoningChain (\<lambda>s. False) [ev_entity]) = Some 1"
    by code_simp
  moreover have "map_option length (event_body (\<lambda>s. False) [] ev_graph) = Some 1"
    by code_simp
  ultimately show ?thesis
    using s' by auto
qed

lemma truthy_not_nullish: "truthy v \<Longrightarrow> \<not> nullish v"
  by (cases v) auto

lemma not_nullish_payload_of [simp]: "\<not> nullish (payload_of ev)"
  by (simp add: payload_of_def js_or_def truthy_not_nullish)

lemma rule_research_categories:
  "\<not> nullish d \<Longrightarrow> rule_research d s = Some s' \<Longrightarrow>
   \<exists>X. s' = s @ X \<and> map category X = (if prop_of d ''phase'' = JStr ''research'' then [''research''] else [])"
  by (auto simp add: rule_research_def split: if_splits)

lemma rule_research_complete_categories:
  "\<not> nullish d \<Longrightarrow> rule_research_complete d s = Some s' \<Longrightarrow>
   \<exists>X. s' = s @ X
     \<and> map category X = (if prop_of d ''phase'' = JStr ''research_complete'' then [''strategy''] else [])"
  by (auto simp add: rule_research_complete_def split: if_splits)

lemma rule_confirmed_action_categories:
  "\<not> nullish d \<Longrightarrow> rule_confirmed_action d s = Some s' \<Longrightarrow>
   \<exists>X. s' = s @ X
     \<and> map category X = (if truthy (prop_of d ''confirmed_action'') then [''summary''] else [])"
  by (auto simp add: rule_confirmed_action_def split: if_splits Option.bind_splits)

lemma rule_dispatch_categories:
  "\<not> nullish d \<Longrightarrow> rule_dispatch d s = Some s' \<Longrightarrow>
   \<exists>X. s' = s @ X \<and> map category X = (if prop_of d ''phase'' = JStr ''dispatch'' then [''call''] else [])"
  by (auto simp add: rule_dispatch_def split: if_splits)

lemma on_task_updated_categories:
  assumes "\<not> nullish d" "on_task_updated d s = Some s'"
  shows "\<exists>T. s' = s @ T \<and> map category T = task_updated_rows d"
proof -
  from assms(2) obtain s1 s2 s3 where
    r1: "rule_research d s = Some s1" and r2: "rule_research_complete d s1 = Some s2"
    and r3: "rule_confirmed_action d s2 = Some s3" and r4: "rule_dispatch d s3 = Some s'"
    by (auto simp add: on_task_updated_def split: Option.bind_splits)
  from rule_research_categories [OF assms(1) r1] obtain X1 where
    x1: "s1 = s @ X1" "map category X1 = (if prop_of d ''phase'' = JStr ''research'' then [''research''] else [])"
    by blast
  from rule_research_complete_categories [OF assms(1) r2] obtain X2 where
    x2: "s2 = s1 @ X2"
      "map category X2 = (if prop_of d ''phase'' = JStr ''research_complete'' then [''strategy''] else [])"
    by blast
  from rule_confirmed_action_categories [OF assms(1) r3] obtain X3 where
    x3: "s3 = s2 @ X3"
      "map category X3 = (if truthy (prop_of d ''confirmed_action'') then [''summary''] else [])"
    by blast
  from rule_dispatch_categories [OF assms(1) r4] obtain X4 where
    x4: "s' = s3 @ X4" "map category X4 = (if prop_of d ''phase'' = JStr ''dispatch'' then [''call''] else [])"
    by blast
  have "s' = s @ (X1 @ X2 @ X3 @ X4)"
    using x1(1) x2(1) x3(1) x4(1) by simp
  moreover have "map category (X1 @ X2 @ X3 @ X4) = task_updated_rows d"
    unfolding task_updated_rows_def map_append x1(2) x2(2) x3(2) x4(2) ..
  ultimately show ?thesis by blast
qed

lemma dispatch_rules_task_updated:
  "dispatch_rules f d (JStr ''task_updated'') s = on_task_updated d s"
  by (cases "on_task_updated d s") (simp_all add: dispatch_rules_def when_type_def)

lemma event_body_task_updated:
  "\<not> nullish e \<Longrightarrow> prop_of e ''type'' = JStr ''task_updated'' \<Longrightarrow>
   event_body f s e = on_task_updated (payload_of e) s"
  by (simp add: event_body_dispatch dispatch_rules_task_updated payload_of_def)

lemma buildReasoningChain_Cons:
  "buildReasoningChain f (e # es) =
     Option.bind (event_body f [] e) (\<lambda>T. map_option ((@) T) (buildReasoningChain f es))"
  using buildReasoningChain_append [of f "[e]" es]
  by (simp add: buildReasoningChain_single)

text \<open>
  Claim C3, as amended. Let \<open>e\<close> be a \<^verbatim>\<open>task_updated\<close> event inside a history for which
  the deriver returns. Its steps are contiguous in the result, between the steps of the
  events before it and those of the events after it, and there is one step per applicable
  row, in the order of the rule table: research, research_complete, confirmed_action,
  dispatch. So the step of \<^verbatim>\<open>confirmed_action\<close> comes after the step of a research or
  research_complete phase and before the step of a dispatch phase of the same event.
\<close>

theorem task_updated_rule_order:
  assumes "\<not> nullish e" and "prop_of e ''type'' = JStr ''task_updated''"
    and "buildReasoningChain f (before @ [e] @ after) = Some out"
  shows "\<exists>S1 T S2. buildReasoningChain f before = Some S1
           \<and> event_body f [] e = Some T
           \<and> buildReasoningChain f after = Some S2
           \<and> out = S1 @ T @ S2
           \<and> map category T = task_updated_rows (payload_of e)"
proof -
  from assms(3) obtain S1 R where
    s1: "buildReasoningChain f before = Some S1"
    and r: "buildReasoningChain f ([e] @ after) = Some R" and out: "out = S1 @ R"
    by (auto simp add: buildReasoningChain_append [of f before] split: Option.bind_splits)
  from r obtain T S2 where
    t': "event_body f [] e = Some T"
    and s2: "buildReasoningChain f after = Some S2" and rr: "R = T @ S2"
    by (auto simp add: buildReasoningChain_Cons split: Option.bind_splits)
  with assms(1,2) have "on_task_updated (payload_of e) [] = Some T"
    by (simp add: event_body_task_updated)
  from on_task_updated_categories [OF _ this]
  have "map category T = task_updated_rows (payload_of e)"
    by simp
  with s1 t' s2 out rr show ?thesis
    by blast
qed

theorem task_updated_rule_order_witness:
  "\<exists>S1 T S2. buildReasoningChain (\<lambda>s. False) [ev_entity] = Some S1
      \<and> event_body (\<lambda>s. False) [] ev_research_confirmed = Some T
      \<and> buildReasoningChain (\<lambda>s. False) [ev_graph] = Some S2
      \<and> buildReasoningChain (\<lambda>s. False) ([ev_entity] @ [ev_research_confirmed] @ [ev_graph])
          = Some (S1 @ T @ S2)
      \<and> map category T = [''research'', ''summary'']"
proof -
  have n: "\<not> nullish ev_research_confirmed"
    and ty: "prop_of ev_research_confirmed ''type'' = JStr ''task_updated''"
    by (simp_all add: ev_research_confirmed_def event_of_def)
  have "map_option length
      (buildReasoningChain (\<lambda>s. False) ([ev_entity] @ [ev_research_confirmed] @ [ev_graph])) = Some 4"
    by code_simp
  then obtain out where
    out: "buildReasoningChain (\<lambda>s. False) ([ev_entity] @ [ev_research_confirmed] @ [ev_graph]) = Some out"
    by blast
  have rows: "task_updated_rows (payload_of ev_research_confirmed) = [''research'', ''summary'']"
    by code_simp
  from task_updated_rule_order [OF n ty out] rows out show ?thesis
    by auto
qed

text \<open>
  Claim C3 as stated fails: for a \<^verbatim>\<open>task_updated\<close> event with phase
  \<^verbatim>\<open>dispatch\<close> and a \<^verbatim>\<open>confirmed_action\<close>, the step of the confirmed action comes
  before the step of the phase.
\<close>

theorem confirmed_action_before_dispatch_counterexample:
  "buildReasoningChain (\<lambda>s. False) [ev_dispatch_confirmed] =
     Some [\<lparr>category = ''summary'', label = JStr ''User Confirmed: Cancel Netflix'',
             detail = JStr ''Target savings: $undefined/mo'', source = JStr ''User Decision'',
             extras = JUndefined, highlight = JBool True\<rparr>,
           \<lparr>category = ''call'', label = JStr ''Dispatching Service Calls'',
             detail = JStr ''Initiating autonomous negotiation...'', source = JStr ''Vapi'',
             extras = JUndefined, highlight = JUndefined\<rparr>]"
  by code_simp

lemma to_str_scalar: "scalar v \<Longrightarrow> \<exists>s. to_str v = Some s"
  by (cases v) auto

lemma scalar_js_or: "scalar a \<Longrightarrow> scalar b \<Longrightarrow> scalar (js_or a b)"
  by (simp add: js_or_def)

lemma to_str_js_or: "scalar a \<Longrightarrow> \<exists>s. to_str (js_or a (JStr b)) = Some s"
  by (rule to_str_scalar) (simp add: scalar_js_or)

lemma returns_bind:
  "\<exists>v. m = Some v \<Longrightarrow> (\<And>v. m = Some v \<Longrightarrow> \<exists>w. k v = Some w) \<Longrightarrow> \<exists>w. Option.bind m k = Some w"
  by auto

lemma rule_research_returns: "\<not> nullish d \<Longrightarrow> \<exists>s'. rule_research d s = Some s'"
  by (simp add: rule_research_def)

lemma rule_research_complete_returns: "\<not> nullish d \<Longrightarrow> \<exists>s'. rule_research_complete d s = Some s'"
  by (simp add: rule_research_complete_def)

lemma rule_dispatch_returns: "\<not> nullish d \<Longrightarrow> \<exists>s'. rule_dispatch d s = Some s'"
  by (simp add: rule_dispatch_def)

lemma rule_confirmed_action_returns:
  assumes "\<not> nullish d"
    and "optional (object_with_scalars [''action'', ''service'', ''reason'', ''monthly_savings''])
          (prop_of d ''confirmed_action'')"
  shows "\<exists>s'. rule_confirmed_action d s = Some s'"
proof (cases "truthy (prop_of d ''confirmed_action'')")
  case False
  with assms(1) show ?thesis by (simp add: rule_confirmed_action_def)
next
  case True
  then have nn: "\<not> nullish (prop_of d ''confirmed_action'')"
    by (rule truthy_not_nullish)
  with assms(2) have "scalar (prop_of (prop_of d ''confirmed_action'') ''service'')"
    and "scalar (prop_of (prop_of d ''confirmed_action'') ''monthly_savings'')"
    by (simp_all add: optional_def object_with_scalars_def)
  then obtain a b where "to_str (prop_of (prop_of d ''confirmed_action'') ''service'') = Some a"
    and "to_str (prop_of (prop_of d ''confirmed_action'') ''monthly_savings'') = Some b"
    using to_str_scalar by blast
  with assms(1) True nn show ?thesis
    by (simp add: rule_confirmed_action_def)
qed


lemma on_task_updated_returns:
  assumes "\<not> nullish d"
    and "optional (object_with_scalars [''action'', ''service'', ''reason'', ''monthly_savings''])
          (prop_of d ''confirmed_action'')"
  shows "\<exists>s'. on_task_updated d s = Some s'"
  unfolding on_task_updated_def
  by (intro returns_bind rule_research_returns rule_research_complete_returns
      rule_confirmed_action_returns rule_dispatch_returns assms)

lemma on_tool_call_returns:
  assumes "\<not> nullish d" and "scalar (prop_of d ''tool'')"
  shows "\<exists>s'. on_tool_call d s = Some s'"
proof -
  from assms(2) obtain k where "to_str (prop_of d ''tool'') = Some k"
    using to_str_scalar by blast
  with assms(1) show ?thesis
    by (simp add: on_tool_call_def)
qed

lemma rule_ringing_returns:
  assumes "\<not> nullish d" and "scalar (prop_of d ''company'')"
  shows "\<exists>s'. rule_ringing d s = Some s'"
proof -
  from assms(2) obtain c where "to_str (js_or (prop_of d ''company'') (JStr ''Provider'')) = Some c"
    using to_str_js_or by blast
  with assms(1) show ?thesis
    by (simp add: rule_ringing_def)
qed

lemma rule_in_progress_returns:
  assumes "\<not> nullish d" and "scalar (prop_of d ''company'')"
  shows "\<exists>s'. rule_in_progress d s = Some s'"
proof -
  from assms(2) obtain c where "to_str (prop_of d ''company'') = Some c"
    using to_str_scalar by blast
  with assms(1) show ?thesis
    by (simp add: rule_in_progress_def)
qed

lemma rule_ended_returns:
  assumes "\<not> nullish d" and "scalar (prop_of d ''duration_seconds'')"
    and "scalar (prop_of d ''outcome'')"
  shows "\<exists>s'. rule_ended d s = Some s'"
proof -
  from assms(2) obtain a where "to_str (js_or (prop_of d ''duration_seconds'') (JStr ''?'')) = Some a"
    using to_str_js_or by blast
  moreover from assms(3) obtain b where "to_str (prop_of d ''outcome'') = Some b"
    using to_str_scalar by blast
  ultimately show ?thesis
    using assms(1) by (simp add: rule_ended_def)
qed

lemma on_call_status_returns:
  assumes "\<not> nullish d" and "scalar (prop_of d ''company'')"
    and "scalar (prop_of d ''duration_seconds'')" and "scalar (prop_of d ''outcome'')"
  shows "\<exists>s'. on_call_status d s = Some s'"
  unfolding on_call_status_def
  by (intro returns_bind rule_ringing_returns rule_in_progress_returns rule_ended_returns assms)

lemma on_voice_analysis_returns:
  assumes "\<not> nullish d" and "optional is_array (prop_of d ''key_insights'')"
    and "scalar (prop_of d ''emotion'')"
  shows "\<exists>s'. on_voice_analysis f d s = Some s'"
proof -
  from assms(3) obtain e where e: "to_str (js_or (prop_of d ''emotion'') (JStr ''Analysis'')) = Some e"
    using to_str_js_or by blast
  from assms(2) obtain xs where "js_or (prop_of d ''key_insights'') (JArr []) = JArr xs"
    by (cases "prop_of d ''key_insights''") (simp_all add: optional_def js_or_def)
  with assms(1) e show ?thesis
    by (simp add: on_voice_analysis_def Let_def)
qed

lemma on_entity_extracted_returns:
  assumes "\<not> nullish d" and "optional is_string (prop_of d ''entity_type'')"
  shows "\<exists>s'. on_entity_extracted d s = Some s'"
proof -
  from assms(2) have "is_string (js_or (prop_of d ''entity_type'') (JStr ''entity''))"
    by (cases "prop_of d ''entity_type''") (simp_all add: optional_def js_or_def)
  then obtain t where "js_or (prop_of d ''entity_type'') (JStr ''entity'') = JStr t"
    by (cases "js_or (prop_of d ''entity_type'') (JStr ''entity'')") simp_all
  with assms(1) show ?thesis
    by (simp add: on_entity_extracted_def)
qed

lemma on_graph_updated_returns:
  assumes "\<not> nullish d" and "scalar (prop_of d ''service'')"
    and "optional (object_with_scalars [''monthly_savings'', ''annual_savings'']) (prop_of d ''details'')"
  shows "\<exists>s'. on_graph_updated d s = Some s'"
proof -
  from assms(2) obtain sv where sv: "to_str (js_or (prop_of d ''service'') (JStr ''Updated'')) = Some sv"
    using to_str_js_or by blast
  show ?thesis
  proof (cases "nullish (prop_of d ''details'')")
    case True
    with assms(1) sv show ?thesis
      by (simp add: on_graph_updated_def opt_get_def Let_def)
  next
    case False
    with assms(3) have "scalar (prop_of (prop_of d ''details'') ''monthly_savings'')"
      and "scalar (prop_of (prop_of d ''details'') ''annual_savings'')"
      by (simp_all add: optional_def object_with_scalars_def)
    then obtain a b where "to_str (prop_of (prop_of d ''details'') ''monthly_savings'') = Some a"
      and "to_str (prop_of (prop_of d ''details'') ''annual_savings'') = Some b"
      using to_str_scalar by blast
    with assms(1) sv False show ?thesis
      by (simp add: on_graph_updated_def opt_get_def Let_def)
  qed
qed

lemma on_bill_analyzed_returns:
  assumes "\<not> nullish d" and "scalar (prop_of d ''provider_name'')"
    and "scalar (prop_of d ''total_amount'')" and "scalar (prop_of d ''price_change'')"
  shows "\<exists>s'. on_bill_analyzed d s = Some s'"
proof -
  from assms(2) obtain a where "to_str (js_or (prop_of d ''provider_name'') (JStr ''Provider'')) = Some a"
    using to_str_js_or by blast
  moreover from assms(3) obtain b where "to_str (js_or (prop_of d ''total_amount'') (JStr ''?'')) = Some b"
    using to_str_js_or by blast
  moreover from assms(4) obtain c where "to_str (prop_of d ''price_change'') = Some c"
    using to_str_scalar by blast
  ultimately show ?thesis
    using assms(1) by (simp add: on_bill_analyzed_def)
qed

lemma on_call_summary_returns: "\<not> nullish d \<Longrightarrow> \<exists>s'. on_call_summary d s = Some s'"
  by (simp add: on_call_summary_def)

lemma on_modulate_analysis_returns:
  assumes "\<not> nullish d"
    and "optional (\<lambda>perf. is_object perf
                    \<and> optional (object_with_scalars [''grade'']) (prop_of perf ''professionalism'')
                    \<and> optional (object_with_scalars [''grade'']) (prop_of perf ''privacy''))
          (prop_of d ''agent_performance'')"
  shows "\<exists>s'. on_modulate_analysis d s = Some s'"
proof -
  define perf where "perf = js_or (prop_of d ''agent_performance'') (JObj [])"
  have nn: "\<not> nullish perf"
    by (simp add: perf_def js_or_def truthy_not_nullish)
  have prof: "optional (object_with_scalars [''grade'']) (prop_of perf ''professionalism'')"
    and priv: "optional (object_with_scalars [''grade'']) (prop_of perf ''privacy'')"
    using assms(2)
    by (cases "prop_of d ''agent_performance''"; simp add: perf_def optional_def js_or_def)+
  show ?thesis
  proof (cases "truthy (prop_of perf ''professionalism'')")
    case False
    with assms(1) nn show ?thesis
      by (simp add: on_modulate_analysis_def perf_def [symmetric])
  next
    case True
    then have pn: "\<not> nullish (prop_of perf ''professionalism'')"
      by (rule truthy_not_nullish)
    with prof have "scalar (prop_of (prop_of perf ''professionalism'') ''grade'')"
      by (simp add: optional_def object_with_scalars_def)
    then obtain g where g: "to_str (prop_of (prop_of perf ''professionalism'') ''grade'') = Some g"
      using to_str_scalar by blast
    from priv have "scalar (opt_get (prop_of perf ''privacy'') ''grade'')"
      by (auto simp add: optional_def object_with_scalars_def opt_get_def)
    then obtain p where "to_str (js_or (opt_get (prop_of perf ''privacy'') ''grade'') (JStr ''?'')) = Some p"
      using to_str_js_or by blast
    with assms(1) nn True pn g show ?thesis
      by (simp add: on_modulate_analysis_def perf_def [symmetric])
  qed
qed

lemma on_pii_detected_returns:
  assumes "\<not> nullish d" and "scalar (prop_of d ''count'')"
  shows "\<exists>s'. on_pii_detected d s = Some s'"
proof -
  from assms(2) obtain c where "to_str (prop_of d ''count'') = Some c"
    using to_str_scalar by blast
  with assms(1) show ?thesis
    by (simp add: on_pii_detected_def)
qed

lemma when_type_returns:
  "(ty = JStr name \<Longrightarrow> \<exists>s'. block s = Some s') \<Longrightarrow> \<exists>s'. when_type ty name block s = Some s'"
  by (simp add: when_type_def)

lemma dispatch_rules_returns:
  assumes "\<not> nullish d" and "wf_payload ty d"
  shows "\<exists>s'. dispatch_rules f d (JStr ty) s = Some s'"
  unfolding dispatch_rules_def
  using assms(2)
  by (intro returns_bind when_type_returns on_task_updated_returns on_tool_call_returns
      on_call_status_returns on_voice_analysis_returns on_entity_extracted_returns
      on_graph_updated_returns on_bill_analyzed_returns on_call_summary_returns
      on_modulate_analysis_returns on_pii_detected_returns assms(1))
    (simp_all add: wf_payload_def)

lemma event_body_returns:
  assumes "wf_event ev"
  shows "\<exists>T. event_body f S ev = Some (S @ T)"
proof -
  from assms obtain ty where ty: "prop_of ev ''type'' = JStr ty" and wf: "wf_payload ty (payload_of ev)"
    and nn: "\<not> nullish ev"
    by (cases ev; cases "prop_of ev ''type''") (simp_all add: wf_event_def)
  from dispatch_rules_returns [OF not_nullish_payload_of wf] obtain s' where
    "dispatch_rules f (payload_of ev) (JStr ty) S = Some s'"
    by blast
  with nn ty have "event_body f S ev = Some s'"
    by (simp add: event_body_dispatch payload_of_def)
  with event_body_appends [of f S ev] show ?thesis
    by (cases "event_body f [] ev") simp_all
qed

lemma buildReasoningChain_returns:
  "list_all wf_event evs \<Longrightarrow> \<exists>steps. buildReasoningChain f evs = Some steps"
proof (induction evs)
  case Nil
  show ?case by (simp add: buildReasoningChain_Nil)
next
  case (Cons e evs)
  then obtain S where "buildReasoningChain f evs = Some S" by auto
  moreover from Cons.prems event_body_returns [of e f "[]"] obtain T where
    "event_body f [] e = Some T" by auto
  ultimately show ?case
    by (simp add: buildReasoningChain_Cons)
qed

lemma map_of_prune_fields:
  "map_of (prune_fields K p fs) k =
     (if K (p @ [k]) then None else map_option (prune K (p @ [k])) (map_of fs k))"
  by (induction fs) auto

lemma prune_kind [simp]:
  "scalar (prune K p v) = scalar v" "nullish (prune K p v) = nullish v"
  "is_object (prune K p v) = is_object v" "is_array (prune K p v) = is_array v"
  "is_string (prune K p v) = is_string v"
  by (cases v; simp)+

lemma prop_of_prune:
  "prop_of (prune K p v) k =
     (if is_object v \<and> K (p @ [k]) then JUndefined else prune K (p @ [k]) (prop_of v k))"
  by (cases v) (auto simp add: map_of_prune_fields split: option.splits)

lemma scalar_prop_of_prune: "scalar (prop_of v k) \<Longrightarrow> scalar (prop_of (prune K p v) k)"
  by (simp add: prop_of_prune)

lemma object_with_scalars_prune:
  "object_with_scalars ks v \<Longrightarrow> object_with_scalars ks (prune K p v)"
  by (simp add: object_with_scalars_def list_all_iff scalar_prop_of_prune)

lemma optional_prop_of_prune:
  assumes "optional P (prop_of v k)"
    and "P (prop_of v k) \<Longrightarrow> P (prune K (p @ [k]) (prop_of v k))"
  shows "optional P (prop_of (prune K p v) k)"
  using assms by (auto simp add: optional_def prop_of_prune)

lemma performance_prune:
  assumes "is_object perf
         \<and> optional (object_with_scalars [''grade'']) (prop_of perf ''professionalism'')
         \<and> optional (object_with_scalars [''grade'']) (prop_of perf ''privacy'')"
  shows "is_object (prune K p perf)
         \<and> optional (object_with_scalars [''grade'']) (prop_of (prune K p perf) ''professionalism'')
         \<and> optional (object_with_scalars [''grade'']) (prop_of (prune K p perf) ''privacy'')"
  using assms by (simp add: optional_prop_of_prune object_with_scalars_prune)

lemma wf_payload_prune:
  assumes "wf_payload ty d"
  shows "wf_payload ty (prune K p d)"
  unfolding wf_payload_def
  using assms
  by (intro conjI impI scalar_prop_of_prune optional_prop_of_prune object_with_scalars_prune
      performance_prune)
    (simp_all add: wf_payload_def)

lemma payload_of_event_of [simp]: "payload_of (event_of ty fs) = JObj fs"
  by (simp add: payload_of_def event_of_def js_or_def)

lemma wf_event_event_of: "wf_event (event_of ty fs) \<longleftrightarrow> wf_payload ty (JObj fs)"
proof -
  have "prop_of (event_of ty fs) ''type'' = JStr ty" "prop_of (event_of ty fs) ''data'' = JObj fs"
    "is_object (event_of ty fs)"
    by (simp_all add: event_of_def)
  then show ?thesis
    by (simp add: wf_event_def optional_def)
qed

lemma wf_event_prune:
  "wf_event (event_of ty fs) \<Longrightarrow> wf_event (event_of ty (prune_fields K [] fs))"
  using wf_payload_prune [of ty "JObj fs" K "[]"]
  by (simp add: wf_event_event_of)

lemma wf_event_no_payload: "wf_event (JObj [(''type'', JStr ty)])"
  by (simp add: wf_event_def optional_def payload_of_def js_or_def wf_payload_def)

text \<open>
  Claim C7. The deriver is total on well-formed events: it returns a step sequence for every
  history of well-formed events, and for every well-formed event the loop body returns the
  steps it was given followed by zero or more new steps. The same holds when any fields of
  the payload are taken away, at any depth, and when the event has no payload at all,
  whatever its type.
\<close>

theorem deriver_total_on_well_formed_events:
  "(list_all wf_event evs \<longrightarrow> (\<exists>steps. buildReasoningChain f evs = Some steps))
   \<and> (wf_event ev \<longrightarrow> (\<exists>T. event_body f S ev = Some (S @ T)))
   \<and> (wf_event (event_of ty payload) \<longrightarrow>
        (\<exists>T. event_body f S (event_of ty (prune_fields K [] payload)) = Some (S @ T)))
   \<and> (\<exists>T. event_body f S (JObj [(''type'', JStr ty)]) = Some (S @ T))"
  using buildReasoningChain_returns [of evs f] event_body_returns [of ev f S]
    event_body_returns [OF wf_event_prune, of ty payload f S K]
    event_body_returns [OF wf_event_no_payload, of f S ty]
  by blast

theorem deriver_total_on_well_formed_events_witness:
  "list_all wf_event sample_history
   \<and> (\<exists>steps. buildReasoningChain (\<lambda>s. False) sample_history = Some steps \<and> length steps = 10)"
proof -
  have wf: "list_all wf_event sample_history"
    by code_simp
  with deriver_total_on_well_formed_events [of sample_history "\<lambda>s. False"]
  obtain steps where steps: "buildReasoningChain (\<lambda>s. False) sample_history = Some steps"
    by blast
  moreover have "map_option length (buildReasoningChain (\<lambda>s. False) sample_history) = Some 10"
    by code_simp
  ultimately show ?thesis
    using wf by simp
qed


section \<open>Properties of the graph layout\<close>

lemma those_map_Some:
  "\<forall>x\<in>set xs. f x \<noteq> None \<Longrightarrow> those (map f xs) = Some (map (\<lambda>x. the (f x)) xs)"
  by (induction xs) (auto split: option.splits)

lemma node_active_returns: "\<exists>a. node_active n = Some a"
  by (auto simp add: node_active_def Let_def opt_get_def get_def split: if_splits)

lemma truthy_value_defined: "truthy_value v \<Longrightarrow> v \<noteq> PUndefined"
  by (cases v) simp_all

lemma position_node_returns:
  "truthy_value (positions_get ps (node_id n)) \<Longrightarrow> \<exists>item. position_node ps n = Some item"
  using node_active_returns [of n]
  by (auto simp add: position_node_def get_x_def get_y_def dest: truthy_value_defined)

lemma render_edge_returns:
  "truthy_value (positions_get ps (sourceId l)) \<Longrightarrow> truthy_value (positions_get ps (targetId l)) \<Longrightarrow>
   \<exists>e. render_edge ps l = Some e"
  by (auto simp add: render_edge_def get_x_def get_y_def dest: truthy_value_defined)

lemma computeLayout_no_nodes:
  "nodes g = [] \<Longrightarrow> computeLayout g = Some \<lparr>positioned = [], edges = []\<rparr>"
  by (simp add: computeLayout_def)

lemma computeLayout_nonempty:
  "nodes g \<noteq> [] \<Longrightarrow>
   computeLayout g = Some \<lparr>positioned = positioned_of (layout_positions g) (nodes g),
                           edges = edges_of (layout_positions g) (links g)\<rparr>"
proof -
  assume ne: "nodes g \<noteq> []"
  define ps where "ps = layout_positions g"
  have "those (map (position_node ps)
          (filter (\<lambda>n. truthy_value (positions_get ps (node_id n))) (nodes g)))
      = Some (positioned_of ps (nodes g))"
    unfolding positioned_of_def
    by (rule those_map_Some) (use position_node_returns in fastforce)
  moreover have "those (map (render_edge ps)
        (filter (\<lambda>l. truthy_value (positions_get ps (sourceId l))
                     \<and> truthy_value (positions_get ps (targetId l))) (links g)))
      = Some (edges_of ps (links g))"
    unfolding edges_of_def
    by (rule those_map_Some) (use render_edge_returns in fastforce)
  ultimately show ?thesis
    using ne by (simp add: computeLayout_def Let_def ps_def)
qed

lemma computeLayout_returns: "\<exists>lay. computeLayout g = Some lay"
  by (cases "nodes g = []") (simp_all add: computeLayout_no_nodes computeLayout_nonempty)

lemma layout_positions_unfold:
  "layout_positions g =
     fold (place_negotiation (links g) (services_of g)) (enumerate 0 (negotiations_of g))
       (fold (place_service (serviceStartX (services_of g))) (enumerate 0 (services_of g))
          (case person_of g of None \<Rightarrow> empty_positions
           | Some p \<Rightarrow> positions_set empty_positions (node_id p) \<lparr>pos_x = Finite CX, pos_y = Finite CY\<rparr>))"
  by (simp add: layout_positions_def Let_def person_of_def services_of_def negotiations_of_def)

lemma roles_links_update [simp]:
  "person_of (g\<lparr>links := ls\<rparr>) = person_of g"
  "services_of (g\<lparr>links := ls\<rparr>) = services_of g"
  "negotiations_of (g\<lparr>links := ls\<rparr>) = negotiations_of g"
  "placed_nodes (g\<lparr>links := ls\<rparr>) = placed_nodes g"
  by (simp_all add: person_of_def services_of_def negotiations_of_def placed_nodes_def)

lemma both_placed_links_update [simp]: "both_placed (g\<lparr>links := ls\<rparr>) = both_placed g"
  by (rule ext) (simp add: both_placed_def)

subsection \<open>Normalization of the references\<close>

lemma sourceId_ref_id: "sourceId l = ref_id (link_source l)"
  by (cases "link_source l") (simp_all add: sourceId_def)

lemma targetId_ref_id: "targetId l = ref_id (link_target l)"
  by (cases "link_target l") (simp_all add: targetId_def)

lemma find_map: "find P (map f xs) = map_option f (find (\<lambda>x. P (f x)) xs)"
  by (induction xs) simp_all

lemma ids_bare_link [simp]:
  "sourceId (bare_link l) = sourceId l" "targetId (bare_link l) = targetId l"
  by (simp_all add: bare_link_def sourceId_ref_id targetId_ref_id)

lemma render_edge_bare_link [simp]: "render_edge ps (bare_link l) = render_edge ps l"
  using ids_bare_link [of l]
  by (simp add: render_edge_def) (simp add: bare_link_def)

lemma place_negotiation_bare_links:
  "place_negotiation (map bare_link ls) sv x = place_negotiation ls sv x"
proof (cases x)
  case (Pair i neg)
  define P where "P = (\<lambda>l. (sourceId l = node_id neg \<or> targetId l = node_id neg)
                 \<and> list_ex (\<lambda>s. node_id s = sourceId l \<or> node_id s = targetId l) sv)"
  have f: "find P (map bare_link ls) = map_option bare_link (find P ls)"
    by (simp add: find_map P_def)
  show ?thesis
  proof (cases "find P ls")
    case None
    with f show ?thesis
      by (simp add: Pair place_negotiation_def P_def [symmetric])
  next
    case (Some l)
    with f show ?thesis
      by (simp add: Pair place_negotiation_def P_def [symmetric])
  qed
qed

lemma layout_positions_bare_links:
  "layout_positions (g\<lparr>links := map bare_link (links g)\<rparr>) = layout_positions g"
proof -
  have "place_negotiation (map bare_link (links g)) (services_of g)
      = place_negotiation (links g) (services_of g)"
    by (rule ext) (rule place_negotiation_bare_links)
  then show ?thesis
    by (simp add: layout_positions_unfold)
qed

lemma edges_of_bare_links: "edges_of ps (map bare_link ls) = edges_of ps ls"
  by (simp add: edges_of_def filter_map comp_def)

lemma computeLayout_bare_links:
  "computeLayout (g\<lparr>links := map bare_link (links g)\<rparr>) = computeLayout g"
  by (cases "nodes g = []")
    (simp_all add: computeLayout_no_nodes computeLayout_nonempty layout_positions_bare_links
      edges_of_bare_links)

subsection \<open>The object \<^verbatim>\<open>positions\<close> for plain ids\<close>

lemma proto_name_not_plain: "plain_id k \<Longrightarrow> k \<noteq> ''__proto__''"
  by (auto simp add: plain_id_def object_prototype_names_def)

lemma positions_set_plain:
  "plain_id k \<Longrightarrow> positions_set ps k v = ps\<lparr>own := (own ps)(k \<mapsto> v)\<rparr>"
  by (simp add: positions_set_def proto_name_not_plain)

lemma positions_get_plain:
  "proto ps = None \<Longrightarrow> plain_id k \<Longrightarrow>
   positions_get ps k = (case own ps k of Some v \<Rightarrow> PObject v | None \<Rightarrow> PUndefined)"
  by (simp add: positions_get_def plain_id_def split: option.splits)

lemma truthy_plain:
  "proto ps = None \<Longrightarrow> plain_id k \<Longrightarrow> truthy_value (positions_get ps k) \<longleftrightarrow> k \<in> dom (own ps)"
  by (auto simp add: positions_get_plain split: option.splits)

lemma place_service_plain:
  "plain_id (node_id s) \<Longrightarrow>
   proto (place_service x0 (i, s) ps) = proto ps
   \<and> dom (own (place_service x0 (i, s) ps)) = insert (node_id s) (dom (own ps))"
  by (simp add: place_service_def positions_set_plain)

lemma fold_place_service_plain:
  "\<forall>x\<in>set xs. plain_id (node_id (snd x)) \<Longrightarrow>
   proto (fold (place_service x0) xs ps) = proto ps
   \<and> dom (own (fold (place_service x0) xs ps)) = dom (own ps) \<union> (node_id \<circ> snd) ` set xs"
proof (induction xs arbitrary: ps)
  case Nil
  show ?case by simp
next
  case (Cons a xs)
  from Cons.prems have "plain_id (node_id (snd a))" by simp
  then have "proto (place_service x0 a ps) = proto ps
      \<and> dom (own (place_service x0 a ps)) = insert (node_id (snd a)) (dom (own ps))"
    using place_service_plain [of "snd a" x0 "fst a" ps] by simp
  moreover from Cons.prems have "\<forall>x\<in>set xs. plain_id (node_id (snd x))" by simp
  note Cons.IH [OF this, of "place_service x0 a ps"]
  ultimately show ?case
    by auto
qed

lemma place_negotiation_plain:
  assumes "plain_id (node_id neg)" "proto ps = None"
  shows "proto (place_negotiation ls sv (i, neg) ps) = None
   \<and> dom (own (place_negotiation ls sv (i, neg) ps)) = insert (node_id neg) (dom (own ps))"
proof -
  define v where "v = \<lparr>pos_x = Finite (CX + 60 * int i), pos_y = Finite 240\<rparr>"
  have step: "proto (if \<not> truthy_value (positions_get ps1 (node_id neg))
                   then positions_set ps1 (node_id neg) v else ps1) = None
      \<and> dom (own (if \<not> truthy_value (positions_get ps1 (node_id neg))
                   then positions_set ps1 (node_id neg) v else ps1)) = insert (node_id neg) (dom (own ps))"
    if "proto ps1 = None" "dom (own ps1) = dom (own ps) \<or> dom (own ps1) = insert (node_id neg) (dom (own ps))"
    for ps1
    using that assms(1) truthy_plain [OF that(1) assms(1)]
    by (auto simp add: positions_set_plain)
  show ?thesis
    unfolding place_negotiation_def prod.case Let_def v_def [symmetric]
    by (rule step) (auto simp add: assms positions_set_plain split: option.splits)
qed

lemma fold_place_negotiation_plain:
  "\<forall>x\<in>set xs. plain_id (node_id (snd x)) \<Longrightarrow> proto ps = None \<Longrightarrow>
   proto (fold (place_negotiation ls sv) xs ps) = None
   \<and> dom (own (fold (place_negotiation ls sv) xs ps)) = dom (own ps) \<union> (node_id \<circ> snd) ` set xs"
proof (induction xs arbitrary: ps)
  case Nil
  then show ?case by simp
next
  case (Cons a xs)
  from Cons.prems have "plain_id (node_id (snd a))" by simp
  then have a: "proto (place_negotiation ls sv a ps) = None
      \<and> dom (own (place_negotiation ls sv a ps)) = insert (node_id (snd a)) (dom (own ps))"
    using place_negotiation_plain [of "snd a" ps ls sv "fst a"] Cons.prems(2) by simp
  from Cons.prems have "\<forall>x\<in>set xs. plain_id (node_id (snd x))" by simp
  from Cons.IH [OF this, of "place_negotiation ls sv a ps"] a show ?case
    by auto
qed

lemma snd_set_enumerate: "snd ` set (enumerate n xs) = set xs"
proof -
  have "set (map snd (enumerate n xs)) = set xs"
    by (simp only: map_snd_enumerate)
  then show ?thesis by (simp only: set_map)
qed

lemma person_of_in_nodes: "person_of g = Some p \<Longrightarrow> p \<in> set (nodes g) \<and> node_label p = ''Person''"
  by (auto simp add: person_of_def find_Some_iff)

lemma placed_nodes_subset: "placed_nodes g \<subseteq> set (nodes g)"
  by (auto simp add: placed_nodes_def services_of_def negotiations_of_def
      dest: person_of_in_nodes)

lemma placed_nodes_label:
  "n \<in> placed_nodes g \<Longrightarrow> node_label n \<in> {''Person'', ''Service'', ''Negotiation''}"
  by (auto simp add: placed_nodes_def services_of_def negotiations_of_def
      dest: person_of_in_nodes)

lemma layout_positions_plain:
  assumes "list_all (\<lambda>n. plain_id (node_id n)) (nodes g)"
  shows "proto (layout_positions g) = None"
    and "dom (own (layout_positions g)) = node_id ` placed_nodes g"
proof -
  have plain: "plain_id (node_id n)" if "n \<in> set (nodes g)" for n
    using assms that by (simp add: list_all_iff)
  define ps0 where "ps0 = (case person_of g of None \<Rightarrow> empty_positions
           | Some p \<Rightarrow> positions_set empty_positions (node_id p) \<lparr>pos_x = Finite CX, pos_y = Finite CY\<rparr>)"
  define ps1 where "ps1 = fold (place_service (serviceStartX (services_of g)))
      (enumerate 0 (services_of g)) ps0"
  have e: "(node_id \<circ> snd) ` set (enumerate 0 xs) = node_id ` set xs" for xs :: "node list"
    by (simp only: image_comp [symmetric] snd_set_enumerate)
  then have e': "(\<lambda>x. node_id (snd x)) ` set (enumerate 0 xs) = node_id ` set xs" for xs :: "node list"
    by (simp only: comp_def)
  have p0: "proto ps0 = None \<and> dom (own ps0) = node_id ` set_option (person_of g)"
  proof (cases "person_of g")
    case None
    then show ?thesis by (simp add: ps0_def empty_positions_def)
  next
    case (Some p)
    then have "plain_id (node_id p)"
      using plain person_of_in_nodes by blast
    with Some show ?thesis
      by (simp add: ps0_def empty_positions_def positions_set_plain)
  qed
  have "\<forall>x\<in>set (enumerate 0 (services_of g)). plain_id (node_id (snd x))"
    using snd_set_enumerate [of 0 "services_of g"] plain
    by (fastforce simp add: services_of_def)
  from fold_place_service_plain [OF this, of "serviceStartX (services_of g)" ps0] p0
  have p1: "proto ps1 = None
      \<and> dom (own ps1) = node_id ` set_option (person_of g) \<union> node_id ` set (services_of g)"
    by (simp add: ps1_def e e')
  have "\<forall>x\<in>set (enumerate 0 (negotiations_of g)). plain_id (node_id (snd x))"
    using snd_set_enumerate [of 0 "negotiations_of g"] plain
    by (fastforce simp add: negotiations_of_def)
  from fold_place_negotiation_plain [OF this, of ps1 "links g" "services_of g"] p1
  have "proto (layout_positions g) = None
      \<and> dom (own (layout_positions g)) = node_id ` placed_nodes g"
    by (simp add: layout_positions_unfold ps0_def [symmetric] ps1_def [symmetric] e e'
        placed_nodes_def image_Un)
  then show "proto (layout_positions g) = None"
    and "dom (own (layout_positions g)) = node_id ` placed_nodes g"
    by simp_all
qed

lemma placed_iff_truthy:
  assumes "list_all (\<lambda>n. plain_id (node_id n)) (nodes g)" "plain_id k"
  shows "truthy_value (positions_get (layout_positions g) k) \<longleftrightarrow> k \<in> node_id ` placed_nodes g"
  using truthy_plain [OF layout_positions_plain(1) [OF assms(1)] assms(2)]
  by (simp only: layout_positions_plain(2) [OF assms(1)])

subsection \<open>The positioned nodes and the rendered edges\<close>

lemma position_node_item:
  "position_node ps n = Some item \<Longrightarrow>
   item_node item = n
   \<and> item_x item = x_of (positions_get ps (node_id n))
   \<and> item_y item = y_of (positions_get ps (node_id n))"
  by (auto simp add: position_node_def get_x_def get_y_def split: Option.bind_splits if_splits)

lemma the_position_node:
  assumes "truthy_value (positions_get ps (node_id n))"
  shows "item_node (the (position_node ps n)) = n"
    and "item_x (the (position_node ps n)) = x_of (positions_get ps (node_id n))"
    and "item_y (the (position_node ps n)) = y_of (positions_get ps (node_id n))"
  using position_node_returns [OF assms] position_node_item [of ps n] by auto

lemma render_edge_coordinates:
  "render_edge ps l = Some e \<Longrightarrow>
   edge_x1 e = x_of (positions_get ps (sourceId l)) \<and> edge_y1 e = y_of (positions_get ps (sourceId l))
   \<and> edge_x2 e = x_of (positions_get ps (targetId l)) \<and> edge_y2 e = y_of (positions_get ps (targetId l))"
  by (auto simp add: render_edge_def get_x_def get_y_def split: Option.bind_splits if_splits)

lemma the_render_edge:
  assumes "truthy_value (positions_get ps (sourceId l))" "truthy_value (positions_get ps (targetId l))"
  shows "edge_x1 (the (render_edge ps l)) = x_of (positions_get ps (sourceId l))"
    and "edge_y1 (the (render_edge ps l)) = y_of (positions_get ps (sourceId l))"
    and "edge_x2 (the (render_edge ps l)) = x_of (positions_get ps (targetId l))"
    and "edge_y2 (the (render_edge ps l)) = y_of (positions_get ps (targetId l))"
  using render_edge_returns [OF assms] render_edge_coordinates [of ps l] by auto

lemma map_item_node_positioned_of:
  "map item_node (positioned_of ps ns) = filter (\<lambda>n. truthy_value (positions_get ps (node_id n))) ns"
proof -
  have "map (\<lambda>n. item_node (the (position_node ps n)))
          (filter (\<lambda>n. truthy_value (positions_get ps (node_id n))) ns)
      = filter (\<lambda>n. truthy_value (positions_get ps (node_id n))) ns"
    by (rule map_idI) (simp add: the_position_node)
  then show ?thesis
    by (simp add: positioned_of_def comp_def)
qed

lemma positioned_item_of_node:
  assumes "n \<in> set ns" "truthy_value (positions_get ps (node_id n))"
  shows "\<exists>item\<in>set (positioned_of ps ns).
           node_id (item_node item) = node_id n
         \<and> item_x item = x_of (positions_get ps (node_id n))
         \<and> item_y item = y_of (positions_get ps (node_id n))"
proof -
  have "the (position_node ps n) \<in> set (positioned_of ps ns)"
    using assms by (simp add: positioned_of_def)
  with the_position_node [OF assms(2)] show ?thesis
    by metis
qed

lemma edge_joins_rendered:
  assumes s: "truthy_value (positions_get ps (sourceId l))"
    and t: "truthy_value (positions_get ps (targetId l))"
    and sn: "sourceId l \<in> node_id ` set ns"
    and tn: "targetId l \<in> node_id ` set ns"
  shows "edge_joins \<lparr>positioned = positioned_of ps ns, edges = es\<rparr> (the (render_edge ps l)) l"
proof -
  from sn obtain n where n: "n \<in> set ns" "node_id n = sourceId l" by auto
  from tn obtain m where m: "m \<in> set ns" "node_id m = targetId l" by auto
  from positioned_item_of_node [OF n(1)] s n(2) obtain a where
    a: "a \<in> set (positioned_of ps ns)" "node_id (item_node a) = sourceId l"
      "item_x a = x_of (positions_get ps (sourceId l))"
      "item_y a = y_of (positions_get ps (sourceId l))"
    by auto
  from positioned_item_of_node [OF m(1)] t m(2) obtain b where
    b: "b \<in> set (positioned_of ps ns)" "node_id (item_node b) = targetId l"
      "item_x b = x_of (positions_get ps (targetId l))"
      "item_y b = y_of (positions_get ps (targetId l))"
    by auto
  from a b the_render_edge [OF s t] show ?thesis
    unfolding edge_joins_def sourceId_ref_id targetId_ref_id
    by (intro bexI [of _ a] bexI [of _ b]) simp_all
qed

lemma positioned_ids_plain:
  assumes "list_all (\<lambda>n. plain_id (node_id n)) (nodes g)"
  shows "(\<lambda>item. node_id (item_node item)) ` set (positioned_of (layout_positions g) (nodes g))
     = node_id ` placed_nodes g"
proof -
  have plain: "plain_id (node_id n)" if "n \<in> set (nodes g)" for n
    using assms that by (simp add: list_all_iff)
  have "(\<lambda>item. node_id (item_node item)) ` set (positioned_of (layout_positions g) (nodes g))
      = node_id ` set (map item_node (positioned_of (layout_positions g) (nodes g)))"
    by (simp add: image_comp comp_def)
  also have "\<dots> = node_id ` {n \<in> set (nodes g). truthy_value (positions_get (layout_positions g) (node_id n))}"
    by (simp only: map_item_node_positioned_of set_filter)
  also have "\<dots> = node_id ` {n \<in> set (nodes g). node_id n \<in> node_id ` placed_nodes g}"
    using placed_iff_truthy [OF assms plain] by (intro arg_cong [where f = "(`) node_id"]) blast
  also have "\<dots> = node_id ` placed_nodes g"
    using placed_nodes_subset [of g] by auto
  finally show ?thesis .
qed

lemma rendered_links_plain:
  assumes "plain_ids g"
  shows "filter (\<lambda>l. truthy_value (positions_get (layout_positions g) (sourceId l))
                    \<and> truthy_value (positions_get (layout_positions g) (targetId l))) (links g)
       = filter (both_placed g) (links g)"
proof (rule filter_cong [OF refl])
  fix l assume "l \<in> set (links g)"
  with assms have "plain_id (sourceId l)" "plain_id (targetId l)"
    by (simp_all add: plain_ids_def list_all_iff sourceId_ref_id targetId_ref_id)
  moreover from assms have "list_all (\<lambda>n. plain_id (node_id n)) (nodes g)"
    by (simp add: plain_ids_def)
  ultimately show "(truthy_value (positions_get (layout_positions g) (sourceId l))
                    \<and> truthy_value (positions_get (layout_positions g) (targetId l)))
       = both_placed g l"
    by (simp add: placed_iff_truthy both_placed_def sourceId_ref_id targetId_ref_id)
qed

lemma edges_joined_plain:
  assumes p: "plain_ids g" and c: "computeLayout g = Some lay"
  shows "positioned_ids lay = (if nodes g = [] then {} else node_id ` placed_nodes g)"
    and "list_all2 (edge_joins lay) (edges lay)
          (filter (\<lambda>l. ref_id (link_source l) \<in> positioned_ids lay
                      \<and> ref_id (link_target l) \<in> positioned_ids lay) (links g))"
proof -
  from p have pn: "list_all (\<lambda>n. plain_id (node_id n)) (nodes g)"
    by (simp add: plain_ids_def)
  show ids: "positioned_ids lay = (if nodes g = [] then {} else node_id ` placed_nodes g)"
    using c positioned_ids_plain [OF pn]
    by (cases "nodes g = []")
      (auto simp add: computeLayout_no_nodes computeLayout_nonempty positioned_ids_def)
  show "list_all2 (edge_joins lay) (edges lay)
          (filter (\<lambda>l. ref_id (link_source l) \<in> positioned_ids lay
                      \<and> ref_id (link_target l) \<in> positioned_ids lay) (links g))"
  proof (cases "nodes g = []")
    case True
    with c ids show ?thesis
      by (auto simp add: computeLayout_no_nodes)
  next
    case False
    define ps where "ps = layout_positions g"
    from False c have lay: "lay = \<lparr>positioned = positioned_of ps (nodes g), edges = edges_of ps (links g)\<rparr>"
      by (simp add: computeLayout_nonempty ps_def)
    from False ids have f: "filter (\<lambda>l. ref_id (link_source l) \<in> positioned_ids lay
                      \<and> ref_id (link_target l) \<in> positioned_ids lay) (links g)
        = filter (\<lambda>l. truthy_value (positions_get ps (sourceId l))
                    \<and> truthy_value (positions_get ps (targetId l))) (links g)"
      unfolding ps_def rendered_links_plain [OF p]
      by (simp add: both_placed_def [abs_def])
    have "edge_joins lay (the (render_edge ps l)) l"
      if "l \<in> set (filter (\<lambda>l. truthy_value (positions_get ps (sourceId l))
                    \<and> truthy_value (positions_get ps (targetId l))) (links g))" for l
    proof -
      from that have l: "l \<in> set (links g)" and s: "truthy_value (positions_get ps (sourceId l))"
        and t: "truthy_value (positions_get ps (targetId l))"
        by simp_all
      from l p have "plain_id (sourceId l)" "plain_id (targetId l)"
        by (simp_all add: plain_ids_def list_all_iff sourceId_ref_id targetId_ref_id)
      with s t have "sourceId l \<in> node_id ` placed_nodes g" "targetId l \<in> node_id ` placed_nodes g"
        using placed_iff_truthy [OF pn] by (simp_all add: ps_def)
      with placed_nodes_subset [of g]
      have "sourceId l \<in> node_id ` set (nodes g)" "targetId l \<in> node_id ` set (nodes g)"
        by blast+
      from edge_joins_rendered [OF s t this] show ?thesis
        by (simp only: lay)
    qed
    then show ?thesis
      unfolding f by (simp only: lay edges_of_def list_all2_map1 list_all2_same layout.simps) blast
  qed
qed

text \<open>
  Claim C5, as amended. For every snapshot the layout is computed without error. Each link's
  source and target reference is normalized to the bare id it denotes, the id itself or the
  id of the embedded node object, and replacing every reference by that bare id leaves the
  layout unchanged. When no id of the snapshot is the name of a property inherited from
  \<^verbatim>\<open>Object.prototype\<close>, the rendered edges are, in snapshot order, one edge for every
  link whose source and target are ids of positioned nodes, running between the coordinates
  of two such nodes; nothing is deduplicated, so the number of edges is the number of such
  links.
\<close>

theorem edges_normalized_not_deduplicated:
  "\<exists>lay. computeLayout g = Some lay
     \<and> computeLayout (g\<lparr>links := map bare_link (links g)\<rparr>) = Some lay
     \<and> (\<forall>l. sourceId l = ref_id (link_source l) \<and> targetId l = ref_id (link_target l))
     \<and> (plain_ids g \<longrightarrow>
          list_all2 (edge_joins lay) (edges lay)
            (filter (\<lambda>l. ref_id (link_source l) \<in> positioned_ids lay
                        \<and> ref_id (link_target l) \<in> positioned_ids lay) (links g))
        \<and> length (edges lay)
            = length (filter (\<lambda>l. ref_id (link_source l) \<in> positioned_ids lay
                                \<and> ref_id (link_target l) \<in> positioned_ids lay) (links g)))"
proof -
  from computeLayout_returns obtain lay where c: "computeLayout g = Some lay"
    by blast
  have "list_all2 (edge_joins lay) (edges lay)
            (filter (\<lambda>l. ref_id (link_source l) \<in> positioned_ids lay
                        \<and> ref_id (link_target l) \<in> positioned_ids lay) (links g))
        \<and> length (edges lay)
            = length (filter (\<lambda>l. ref_id (link_source l) \<in> positioned_ids lay
                                \<and> ref_id (link_target l) \<in> positioned_ids lay) (links g))"
    if "plain_ids g"
    using edges_joined_plain(2) [OF that c] list_all2_lengthD by blast
  with c show ?thesis
    by (simp add: computeLayout_bare_links sourceId_ref_id targetId_ref_id)
qed

theorem edges_normalized_not_deduplicated_witness:
  "plain_ids sample_graph
   \<and> (\<exists>lay. computeLayout sample_graph = Some lay
        \<and> computeLayout (sample_graph\<lparr>links := map bare_link (links sample_graph)\<rparr>) = Some lay
        \<and> sourceId (mk_link (NodeObj (mk_node ''S2'' ''Service'')) (BareId ''N1'') ''NEGOTIATED'') = ''S2''
        \<and> map (\<lambda>item. node_id (item_node item)) (positioned lay) = [''P'', ''S1'', ''S2'', ''N1'']
        \<and> list_all2 (edge_joins lay) (edges lay) (take 3 (links sample_graph))
        \<and> length (edges lay) = 3)"
proof -
  have p: "plain_ids sample_graph"
    by code_simp
  from edges_normalized_not_deduplicated [of sample_graph] p obtain lay where
    lay: "computeLayout sample_graph = Some lay"
      "computeLayout (sample_graph\<lparr>links := map bare_link (links sample_graph)\<rparr>) = Some lay"
      "\<forall>l. sourceId l = ref_id (link_source l) \<and> targetId l = ref_id (link_target l)"
      "list_all2 (edge_joins lay) (edges lay)
            (filter (\<lambda>l. ref_id (link_source l) \<in> positioned_ids lay
                        \<and> ref_id (link_target l) \<in> positioned_ids lay) (links sample_graph))"
    by blast
  have "map_option (\<lambda>lay. map (\<lambda>item. node_id (item_node item)) (positioned lay))
          (computeLayout sample_graph) = Some [''P'', ''S1'', ''S2'', ''N1'']"
    by code_simp
  with lay(1) have m: "map (\<lambda>item. node_id (item_node item)) (positioned lay) = [''P'', ''S1'', ''S2'', ''N1'']"
    by simp
  then have "positioned_ids lay = set [''P'', ''S1'', ''S2'', ''N1'']"
    unfolding positioned_ids_def by (simp only: set_map [symmetric])
  then have f: "filter (\<lambda>l. ref_id (link_source l) \<in> positioned_ids lay
                        \<and> ref_id (link_target l) \<in> positioned_ids lay) (links sample_graph)
      = take 3 (links sample_graph)"
    by (simp add: sample_graph_def mk_link_def mk_node_def)
  from lay(4) have j: "list_all2 (edge_joins lay) (edges lay) (take 3 (links sample_graph))"
    by (simp only: f)
  then have "length (edges lay) = 3"
    by (simp add: list_all2_lengthD sample_graph_def)
  moreover from lay(3)
  have "sourceId (mk_link (NodeObj (mk_node ''S2'' ''Service'')) (BareId ''N1'') ''NEGOTIATED'') = ''S2''"
    by (simp add: mk_link_def mk_node_def)
  ultimately have "computeLayout sample_graph = Some lay
        \<and> computeLayout (sample_graph\<lparr>links := map bare_link (links sample_graph)\<rparr>) = Some lay
        \<and> sourceId (mk_link (NodeObj (mk_node ''S2'' ''Service'')) (BareId ''N1'') ''NEGOTIATED'') = ''S2''
        \<and> map (\<lambda>item. node_id (item_node item)) (positioned lay) = [''P'', ''S1'', ''S2'', ''N1'']
        \<and> list_all2 (edge_joins lay) (edges lay) (take 3 (links sample_graph))
        \<and> length (edges lay) = 3"
    using lay(1,2) m j by (simp only: simp_thms)
  then have "\<exists>lay. computeLayout sample_graph = Some lay
        \<and> computeLayout (sample_graph\<lparr>links := map bare_link (links sample_graph)\<rparr>) = Some lay
        \<and> sourceId (mk_link (NodeObj (mk_node ''S2'' ''Service'')) (BareId ''N1'') ''NEGOTIATED'') = ''S2''
        \<and> map (\<lambda>item. node_id (item_node item)) (positioned lay) = [''P'', ''S1'', ''S2'', ''N1'']
        \<and> list_all2 (edge_joins lay) (edges lay) (take 3 (links sample_graph))
        \<and> length (edges lay) = 3"
    by (rule exI)
  with p show ?thesis
    by (rule conjI)
qed

text \<open>
  Claim C5 as stated fails: two links with the same normalized endpoints and the same type,
  one naming its endpoints by bare ids and one by embedded node objects, yield two rendered
  edges.
\<close>

theorem duplicate_links_counterexample:
  "plain_ids duplicate_links_graph
   \<and> map (\<lambda>l. (ref_id (link_source l), ref_id (link_target l), link_type l)) (links duplicate_links_graph)
     = [(''P'', ''S1'', Some ''SUBSCRIBES_TO''), (''P'', ''S1'', Some ''SUBSCRIBES_TO'')]
   \<and> map_option edges (computeLayout duplicate_links_graph)
     = Some [\<lparr>edge_x1 = Coordinate (Finite 250), edge_y1 = Coordinate (Finite 80),
              edge_x2 = Coordinate (Finite 250), edge_y2 = Coordinate (Finite 180),
              edge_label = LabelText ''subscribes to'', edge_status = JUndefined\<rparr>,
             \<lparr>edge_x1 = Coordinate (Finite 250), edge_y1 = Coordinate (Finite 80),
              edge_x2 = Coordinate (Finite 250), edge_y2 = Coordinate (Finite 180),
              edge_label = LabelText ''subscribes to'', edge_status = JUndefined\<rparr>]"
  by code_simp

subsection \<open>Links that are not rendered\<close>

lemma find_filter:
  "(\<And>x. x \<in> set xs \<Longrightarrow> P x \<Longrightarrow> Q x) \<Longrightarrow> find P (filter Q xs) = find P xs"
  by (induction xs) auto

lemma distinct_ids_eq:
  assumes "distinct (map node_id (nodes g))" "n \<in> set (nodes g)" "m \<in> set (nodes g)"
    and "node_id n = node_id m"
  shows "n = m"
  using assms by (meson distinct_map inj_on_def)

lemma negotiation_link_both_placed:
  assumes d: "distinct (map node_id (nodes g))"
    and neg: "neg \<in> set (negotiations_of g)"
    and touch: "sourceId l = node_id neg \<or> targetId l = node_id neg"
    and sv: "list_ex (\<lambda>s. node_id s = sourceId l \<or> node_id s = targetId l) (services_of g)"
  shows "both_placed g l"
proof -
  from sv obtain s where s: "s \<in> set (services_of g)"
    and sid: "node_id s = sourceId l \<or> node_id s = targetId l"
    by (auto simp add: list_ex_iff)
  from s neg have "s \<in> set (nodes g)" "neg \<in> set (nodes g)" "s \<noteq> neg"
    by (auto simp add: services_of_def negotiations_of_def)
  with d have "node_id s \<noteq> node_id neg"
    using distinct_ids_eq by blast
  with touch sid have "sourceId l \<in> {node_id s, node_id neg}" "targetId l \<in> {node_id s, node_id neg}"
    by auto
  moreover have "node_id s \<in> node_id ` placed_nodes g" "node_id neg \<in> node_id ` placed_nodes g"
    using s neg by (simp_all add: placed_nodes_def)
  ultimately show ?thesis
    unfolding both_placed_def sourceId_ref_id [symmetric] targetId_ref_id [symmetric] by auto
qed

lemma place_negotiation_filter:
  assumes d: "distinct (map node_id (nodes g))"
    and neg: "neg \<in> set (negotiations_of g)"
    and q: "\<And>l. both_placed g l \<Longrightarrow> Q l"
  shows "place_negotiation (filter Q ls) (services_of g) (i, neg)
       = place_negotiation ls (services_of g) (i, neg)"
proof -
  have "find (\<lambda>l. (sourceId l = node_id neg \<or> targetId l = node_id neg)
                 \<and> list_ex (\<lambda>s. node_id s = sourceId l \<or> node_id s = targetId l) (services_of g))
          (filter Q ls)
      = find (\<lambda>l. (sourceId l = node_id neg \<or> targetId l = node_id neg)
                 \<and> list_ex (\<lambda>s. node_id s = sourceId l \<or> node_id s = targetId l) (services_of g)) ls"
    by (rule find_filter) (use negotiation_link_both_placed [OF d neg] q in blast)
  then show ?thesis
    by (simp only: place_negotiation_def prod.case)
qed

lemma layout_positions_filter_links:
  assumes d: "distinct (map node_id (nodes g))"
    and q: "\<And>l. both_placed g l \<Longrightarrow> Q l"
  shows "layout_positions (g\<lparr>links := filter Q (links g)\<rparr>) = layout_positions g"
proof -
  have "place_negotiation (filter Q (links g)) (services_of g) x
      = place_negotiation (links g) (services_of g) x"
    if "x \<in> set (enumerate 0 (negotiations_of g))" for x
  proof -
    from that have "snd x \<in> set (negotiations_of g)"
      using snd_set_enumerate [of 0 "negotiations_of g"] by blast
    from place_negotiation_filter [OF d this q, where i = "fst x" and ls = "links g"]
    show ?thesis
      by simp
  qed
  then have "fold (place_negotiation (filter Q (links g)) (services_of g))
               (enumerate 0 (negotiations_of g)) ps0
           = fold (place_negotiation (links g) (services_of g)) (enumerate 0 (negotiations_of g)) ps0"
    for ps0
    by (rule fold_cong [OF refl refl])
  then show ?thesis
    by (simp add: layout_positions_unfold)
qed

lemma edges_of_filter:
  assumes "\<And>l. l \<in> set ls \<Longrightarrow> truthy_value (positions_get ps (sourceId l)) \<Longrightarrow>
             truthy_value (positions_get ps (targetId l)) \<Longrightarrow> Q l"
  shows "edges_of ps (filter Q ls) = edges_of ps ls"
proof -
  have "filter (\<lambda>l. truthy_value (positions_get ps (sourceId l))
                   \<and> truthy_value (positions_get ps (targetId l))) (filter Q ls)
      = filter (\<lambda>l. truthy_value (positions_get ps (sourceId l))
                   \<and> truthy_value (positions_get ps (targetId l))) ls"
    using assms by (induction ls) auto
  then show ?thesis
    by (simp only: edges_of_def)
qed

lemma computeLayout_filter_links:
  assumes d: "distinct (map node_id (nodes g))"
    and p: "plain_ids g"
    and q: "\<And>l. both_placed g l \<Longrightarrow> Q l"
  shows "computeLayout (g\<lparr>links := filter Q (links g)\<rparr>) = computeLayout g"
proof (cases "nodes g = []")
  case True
  then show ?thesis
    by (simp add: computeLayout_no_nodes)
next
  case False
  have "edges_of (layout_positions g) (filter Q (links g)) = edges_of (layout_positions g) (links g)"
  proof (rule edges_of_filter)
    fix l
    assume "l \<in> set (links g)"
      "truthy_value (positions_get (layout_positions g) (sourceId l))"
      "truthy_value (positions_get (layout_positions g) (targetId l))"
    then have "l \<in> set (filter (\<lambda>l. truthy_value (positions_get (layout_positions g) (sourceId l))
                    \<and> truthy_value (positions_get (layout_positions g) (targetId l))) (links g))"
      by simp
    then have "both_placed g l"
      by (simp only: rendered_links_plain [OF p]) simp
    then show "Q l" by (rule q)
  qed
  with False show ?thesis
    by (simp add: computeLayout_nonempty layout_positions_filter_links [OF d q])
qed

lemma plain_ids_sublinks:
  "plain_ids (g\<lparr>links := xs @ l # ys\<rparr>) \<Longrightarrow> plain_ids (g\<lparr>links := xs @ ys\<rparr>)"
  by (simp add: plain_ids_def)

lemma computeLayout_drop_link:
  assumes d: "distinct (map node_id (nodes g))"
    and p: "plain_ids (g\<lparr>links := xs @ l # ys\<rparr>)"
    and l: "\<not> both_placed g l"
  shows "computeLayout (g\<lparr>links := xs @ l # ys\<rparr>) = computeLayout (g\<lparr>links := xs @ ys\<rparr>)"
proof -
  have "computeLayout (g\<lparr>links := xs @ l # ys\<rparr>)
      = computeLayout (g\<lparr>links := xs @ l # ys\<rparr>\<lparr>links := filter (both_placed g) (links (g\<lparr>links := xs @ l # ys\<rparr>))\<rparr>)"
    by (rule computeLayout_filter_links [symmetric]) (use d p in simp_all)
  also have "\<dots> = computeLayout (g\<lparr>links := xs @ ys\<rparr>\<lparr>links := filter (both_placed g) (links (g\<lparr>links := xs @ ys\<rparr>))\<rparr>)"
    using l by simp
  also have "\<dots> = computeLayout (g\<lparr>links := xs @ ys\<rparr>)"
    by (rule computeLayout_filter_links) (use d plain_ids_sublinks [OF p] in simp_all)
  finally show ?thesis .
qed

lemma links_update_same: "links g = ls \<Longrightarrow> g\<lparr>links := ls\<rparr> = g"
  by simp

lemma not_both_placed_dangling:
  "ref_id (link_source l) \<notin> node_id ` set (nodes g) \<or> ref_id (link_target l) \<notin> node_id ` set (nodes g) \<Longrightarrow>
   \<not> both_placed g l"
  using placed_nodes_subset [of g] by (auto simp add: both_placed_def)

lemma omitted_iff_not_placed:
  "n \<in> set (nodes g) \<Longrightarrow> omitted g n \<longleftrightarrow> n \<notin> placed_nodes g"
  by (auto simp add: omitted_def placed_nodes_def services_of_def negotiations_of_def
      dest: person_of_in_nodes)

lemma placed_by_id:
  assumes "distinct (map node_id (nodes g))" "n \<in> set (nodes g)"
  shows "node_id n \<in> node_id ` placed_nodes g \<longleftrightarrow> n \<in> placed_nodes g"
proof
  assume "node_id n \<in> node_id ` placed_nodes g"
  then obtain m where m: "m \<in> placed_nodes g" "node_id n = node_id m"
    by blast
  with placed_nodes_subset [of g] have "m \<in> set (nodes g)" by blast
  then have "n = m"
    using distinct_ids_eq [OF assms(1) assms(2) _ m(2)] by blast
  with m(1) show "n \<in> placed_nodes g" by simp
qed simp

lemma positioned_nodes_plain:
  assumes "list_all (\<lambda>n. plain_id (node_id n)) (nodes g)"
  shows "map item_node (positioned_of (layout_positions g) (nodes g))
     = filter (\<lambda>n. node_id n \<in> node_id ` placed_nodes g) (nodes g)"
proof -
  have "filter (\<lambda>n. truthy_value (positions_get (layout_positions g) (node_id n))) (nodes g)
      = filter (\<lambda>n. node_id n \<in> node_id ` placed_nodes g) (nodes g)"
    using assms by (intro filter_cong [OF refl] placed_iff_truthy) (simp_all add: list_all_iff)
  then show ?thesis
    by (simp only: map_item_node_positioned_of)
qed

text \<open>
  A dangling link is dropped when no id of the snapshot is the name of a property inherited
  from \<^verbatim>\<open>Object.prototype\<close> and the ids of the nodes are unique: the layout is the one
  of the snapshot without that link.
\<close>

lemma dangling_link_dropped_plain_ids:
  assumes "distinct (map node_id (nodes g))" "plain_ids g" "links g = xs @ l # ys"
    and "ref_id (link_source l) \<notin> node_id ` set (nodes g)
       \<or> ref_id (link_target l) \<notin> node_id ` set (nodes g)"
  shows "computeLayout (g\<lparr>links := xs @ ys\<rparr>) = computeLayout g"
proof -
  from assms(4) have "\<not> both_placed g l"
    by (rule not_both_placed_dangling)
  moreover from assms(2,3) have "plain_ids (g\<lparr>links := xs @ l # ys\<rparr>)"
    by (simp add: links_update_same)
  ultimately have "computeLayout (g\<lparr>links := xs @ l # ys\<rparr>) = computeLayout (g\<lparr>links := xs @ ys\<rparr>)"
    using assms(1) computeLayout_drop_link by blast
  with assms(3) show ?thesis
    by (simp add: links_update_same)
qed

text \<open>
  Under the same two conditions the positioned nodes are the nodes with a role, in snapshot
  order, and a link that has an omitted node as its source or target is dropped.
\<close>

lemma role_nodes_positioned_plain_ids:
  assumes d: "distinct (map node_id (nodes g))" and p: "plain_ids g"
  shows "\<exists>lay. computeLayout g = Some lay
     \<and> map item_node (positioned lay) = filter (\<lambda>n. \<not> omitted g n) (nodes g)
     \<and> (\<forall>n xs l ys. n \<in> set (nodes g) \<and> omitted g n \<and> links g = xs @ l # ys
           \<and> (ref_id (link_source l) = node_id n \<or> ref_id (link_target l) = node_id n)
           \<longrightarrow> computeLayout (g\<lparr>links := xs @ ys\<rparr>) = Some lay)"
proof -
  from p have pn: "list_all (\<lambda>n. plain_id (node_id n)) (nodes g)"
    by (simp add: plain_ids_def)
  from computeLayout_returns obtain lay where c: "computeLayout g = Some lay"
    by blast
  have "filter (\<lambda>n. node_id n \<in> node_id ` placed_nodes g) (nodes g)
      = filter (\<lambda>n. \<not> omitted g n) (nodes g)"
    using placed_by_id [OF d] omitted_iff_not_placed [of _ g]
    by (intro filter_cong [OF refl]) simp
  with c positioned_nodes_plain [OF pn]
  have m: "map item_node (positioned lay) = filter (\<lambda>n. \<not> omitted g n) (nodes g)"
    by (cases "nodes g = []") (auto simp add: computeLayout_no_nodes computeLayout_nonempty)
  have "computeLayout (g\<lparr>links := xs @ ys\<rparr>) = Some lay"
    if "n \<in> set (nodes g)" "omitted g n" "links g = xs @ l # ys"
      "ref_id (link_source l) = node_id n \<or> ref_id (link_target l) = node_id n" for n xs l ys
  proof -
    from that(1,2) have "node_id n \<notin> node_id ` placed_nodes g"
      using placed_by_id [OF d that(1)] omitted_iff_not_placed [OF that(1)] by simp
    with that(4) have "\<not> both_placed g l"
      by (auto simp add: both_placed_def)
    moreover from p that(3) have "plain_ids (g\<lparr>links := xs @ l # ys\<rparr>)"
      by (simp add: links_update_same)
    ultimately have "computeLayout (g\<lparr>links := xs @ l # ys\<rparr>) = computeLayout (g\<lparr>links := xs @ ys\<rparr>)"
      using d computeLayout_drop_link by blast
    with that(3) c show ?thesis
      by (simp add: links_update_same)
  qed
  with c m show ?thesis
    by blast
qed

subsection \<open>A snapshot without Service nodes\<close>

lemma positions_get_set_empty: "positions_get (positions_set empty_positions k v) k = PObject v"
  by (simp add: positions_get_def positions_set_def empty_positions_def)

lemma filter_eq_singleton:
  "distinct xs \<Longrightarrow> a \<in> set xs \<Longrightarrow> filter (\<lambda>x. x = a) xs = [a]"
proof (induction xs)
  case Nil
  then show ?case by simp
next
  case (Cons x xs)
  show ?case
  proof (cases "x = a")
    case True
    with Cons.prems have "a \<notin> set xs" by simp
    then have "filter (\<lambda>x. x = a) xs = []"
      by (auto simp add: filter_empty_conv)
    with True show ?thesis by simp
  next
    case False
    with Cons show ?thesis by simp
  qed
qed

lemma positions_get_set_other:
  "k' \<noteq> k \<Longrightarrow> positions_get ps k = PObject v \<Longrightarrow> positions_get (positions_set ps k' v') k = PObject v"
  by (auto simp add: positions_get_def positions_set_def split: option.splits if_splits)

lemma place_negotiation_no_services_keeps:
  assumes "positions_get ps k = PObject v"
  shows "positions_get (place_negotiation ls [] x ps) k = PObject v"
proof (cases x)
  case (Pair i neg)
  have f: "find (\<lambda>l. (sourceId l = node_id neg \<or> targetId l = node_id neg)
                 \<and> list_ex (\<lambda>s. node_id s = sourceId l \<or> node_id s = targetId l) []) ls = None"
    by (simp add: find_None_iff)
  show ?thesis
  proof (cases "node_id neg = k")
    case True
    with assms f show ?thesis
      by (simp add: Pair place_negotiation_def)
  next
    case False
    with assms f show ?thesis
      by (simp add: Pair place_negotiation_def positions_get_set_other)
  qed
qed

lemma fold_place_negotiation_no_services_keeps:
  "positions_get ps k = PObject v \<Longrightarrow> positions_get (fold (place_negotiation ls []) xs ps) k = PObject v"
  by (induction xs arbitrary: ps) (simp_all add: place_negotiation_no_services_keeps)

lemma person_position_no_services:
  assumes "services_of g = []" "person_of g = Some p"
  shows "positions_get (layout_positions g) (node_id p) = PObject \<lparr>pos_x = Finite CX, pos_y = Finite CY\<rparr>"
  using assms
  by (simp add: layout_positions_unfold fold_place_negotiation_no_services_keeps
      positions_get_set_empty)

text \<open>
  A snapshot with a Person node and no Service node places the first Person node at the
  anchor (250, 80), whatever its ids; the node is the only positioned one when the snapshot
  has no Negotiation node either, its node ids are unique and none of them is the name of
  a property inherited from \<^verbatim>\<open>Object.prototype\<close>.
\<close>

lemma person_placed_without_services:
  assumes "services_of g = []" "person_of g = Some p"
  shows "\<exists>lay a. computeLayout g = Some lay
           \<and> \<lparr>item_node = p, item_x = Coordinate (Finite 250), item_y = Coordinate (Finite 80),
               item_active = a\<rparr> \<in> set (positioned lay)
           \<and> (negotiations_of g = [] \<and> distinct (map node_id (nodes g))
                \<and> list_all (\<lambda>n. plain_id (node_id n)) (nodes g)
              \<longrightarrow> map item_node (positioned lay) = [p])"
proof -
  from node_active_returns obtain a where a: "node_active p = Some a" by blast
  have pos: "positions_get (layout_positions g) (node_id p) = PObject \<lparr>pos_x = Finite CX, pos_y = Finite CY\<rparr>"
    using assms by (rule person_position_no_services)
  with a have "position_node (layout_positions g) p
      = Some \<lparr>item_node = p, item_x = Coordinate (Finite 250), item_y = Coordinate (Finite 80),
              item_active = a\<rparr>"
    by (simp add: position_node_def get_x_def get_y_def CX_def CY_def)
  moreover from assms(2) have p: "p \<in> set (nodes g)"
    by (simp add: person_of_in_nodes)
  ultimately have item: "\<lparr>item_node = p, item_x = Coordinate (Finite 250), item_y = Coordinate (Finite 80),
              item_active = a\<rparr> \<in> set (positioned_of (layout_positions g) (nodes g))"
    using pos by (force simp add: positioned_of_def)
  from p have ne: "nodes g \<noteq> []" by auto
  have "map item_node (positioned_of (layout_positions g) (nodes g)) = [p]"
    if n: "negotiations_of g = []" and d: "distinct (map node_id (nodes g))"
      and pl: "list_all (\<lambda>n. plain_id (node_id n)) (nodes g)"
  proof -
    have placed: "placed_nodes g = {p}"
      using assms n by (simp add: placed_nodes_def)
    have "filter (\<lambda>n. node_id n \<in> node_id ` placed_nodes g) (nodes g) = filter (\<lambda>n. n = p) (nodes g)"
    proof (rule filter_cong [OF refl])
      fix n assume "n \<in> set (nodes g)"
      from placed_by_id [OF d this] show "(node_id n \<in> node_id ` placed_nodes g) = (n = p)"
        by (simp only: placed) simp
    qed
    also have "\<dots> = [p]"
    proof -
      from d have "distinct (nodes g)"
        by (rule distinct_map [THEN iffD1, THEN conjunct1])
      then show ?thesis
        using p by (rule filter_eq_singleton)
    qed
    finally show ?thesis
      by (simp only: positioned_nodes_plain [OF pl])
  qed
  with item ne show ?thesis
    by (auto simp add: computeLayout_nonempty)
qed

text \<open>
  Claim C6 fails on the snapshot \<open>inherited_target_graph\<close>. Its only node has the id
  \<^verbatim>\<open>P\<close>, and the target \<^verbatim>\<open>constructor\<close> of its only link is the id of no node. The
  link is not dropped: \<^verbatim>\<open>positions["constructor"]\<close> reads the function that the object
  \<^verbatim>\<open>positions\<close> inherits from \<^verbatim>\<open>Object.prototype\<close>, which is truthy, so the layout
  has one rendered edge, whose end coordinates are \<^verbatim>\<open>undefined\<close>.
\<close>

theorem dangling_link_to_inherited_name_rendered:
  "map node_id (nodes inherited_target_graph) = [''P'']
   \<and> map (\<lambda>l. (ref_id (link_source l), ref_id (link_target l))) (links inherited_target_graph)
       = [(''P'', ''constructor'')]
   \<and> computeLayout inherited_target_graph
       = Some \<lparr>positioned = [\<lparr>item_node = mk_node ''P'' ''Person'', item_x = Coordinate (Finite 250),
                               item_y = Coordinate (Finite 80), item_active = JUndefined\<rparr>],
               edges = [\<lparr>edge_x1 = Coordinate (Finite 250), edge_y1 = Coordinate (Finite 80),
                          edge_x2 = NoCoordinate, edge_y2 = NoCoordinate,
                          edge_label = LabelText ''subscribes to'', edge_status = JUndefined\<rparr>]\<rparr>"
  by code_simp

text \<open>
  Claim C10 fails on the snapshot \<open>inherited_ids_graph\<close>, by the same inherited
  properties of the object \<^verbatim>\<open>positions\<close>. Its nodes are a Person node, a node with the
  label \<^verbatim>\<open>Other\<close> and the id \<^verbatim>\<open>constructor\<close>, and a second Person node with the id
  \<^verbatim>\<open>toString\<close>. The last two have no role, yet both are positioned, with
  \<^verbatim>\<open>undefined\<close> coordinates, and the two links that touch them are rendered.
\<close>

theorem nodes_with_inherited_ids_positioned:
  "map (\<lambda>n. (node_id n, node_label n)) (nodes inherited_ids_graph)
     = [(''P'', ''Person''), (''constructor'', ''Other''), (''toString'', ''Person'')]
   \<and> omitted inherited_ids_graph (mk_node ''constructor'' ''Other'')
   \<and> omitted inherited_ids_graph (mk_node ''toString'' ''Person'')
   \<and> map (\<lambda>l. (ref_id (link_source l), ref_id (link_target l))) (links inherited_ids_graph)
       = [(''P'', ''constructor''), (''toString'', ''P'')]
   \<and> computeLayout inherited_ids_graph
       = Some \<lparr>positioned = [\<lparr>item_node = mk_node ''P'' ''Person'', item_x = Coordinate (Finite 250),
                               item_y = Coordinate (Finite 80), item_active = JUndefined\<rparr>,
                             \<lparr>item_node = mk_node ''constructor'' ''Other'', item_x = NoCoordinate,
                               item_y = NoCoordinate, item_active = JUndefined\<rparr>,
                             \<lparr>item_node = mk_node ''toString'' ''Person'', item_x = NoCoordinate,
                               item_y = NoCoordinate, item_active = JUndefined\<rparr>],
               edges = [\<lparr>edge_x1 = Coordinate (Finite 250), edge_y1 = Coordinate (Finite 80),
                          edge_x2 = NoCoordinate, edge_y2 = NoCoordinate,
                          edge_label = LabelText ''HAS X'', edge_status = JUndefined\<rparr>,
                        \<lparr>edge_x1 = NoCoordinate, edge_y1 = NoCoordinate,
                          edge_x2 = Coordinate (Finite 250), edge_y2 = Coordinate (Finite 80),
                          edge_label = LabelText ''KNOWS'', edge_status = JUndefined\<rparr>]\<rparr>"
  by code_simp

section \<open>Properties of the periodic snapshot fetch\<close>

lemma run_fetches_snoc: "run_fetches st (tr @ [e]) = fetch_step (run_fetches st tr) e"
  by (simp add: run_fetches_def)

lemma last_resolved_snoc:
  "last_resolved (tr @ [e]) = (case e of Resolved k g \<Rightarrow> Some g | _ \<Rightarrow> last_resolved tr)"
  by (induction tr) (auto split: fetch_event.splits option.splits)

text \<open>
  Claim C8, as amended. Every fetch that resolves is applied to the displayed graph state
  when it resolves: after any sequence of fetches starting, resolving and failing, the
  displayed snapshot is the result of the fetch that resolved last (the last writer by
  order of completion), and the initial one when none has resolved.
\<close>

theorem last_completion_wins:
  "graphData (run_fetches st tr) = (case last_resolved tr of Some g \<Rightarrow> g | None \<Rightarrow> graphData st)"
proof (induction tr rule: rev_induct)
  case Nil
  show ?case by (simp add: run_fetches_def)
next
  case (snoc e tr)
  then show ?case
    by (cases e) (simp_all add: run_fetches_snoc last_resolved_snoc Let_def)
qed

text \<open>
  Claim C8 as stated fails: when the fetch started first resolves after the fetch started
  last, its result is applied, and the result of the most recently initiated fetch is
  overwritten.
\<close>

theorem stale_fetch_applied_counterexample:
  "last_initiated overlapping_fetches = Some 1
   \<and> result_of 1 overlapping_fetches = Some snapshot_new
   \<and> result_of 0 overlapping_fetches = Some snapshot_old
   \<and> graphData (run_fetches initial_graph_state overlapping_fetches) = snapshot_old
   \<and> snapshot_old \<noteq> snapshot_new"
  by (simp add: overlapping_fetches_def run_fetches_def snapshot_old_def snapshot_new_def)

end
